theory Spec2Isabelle
  imports Main "HOL-Library.Sublist"
begin

section \<open>The interactive generation loop of \<open>run.cpp\<close>\<close>

text \<open>
  A shallow embedding of \<open>src/run.cpp\<close>: the console-state helper, the SIGINT handler and
  the function \<open>run\<close> with its main loop. The inference backend (\<open>llama_eval\<close>,
  \<open>llama_sample_top_p_top_k\<close>, \<open>llama_tokenize\<close>, \<open>llama_token_to_str\<close>,
  \<open>llama_token_eos\<close>, \<open>llama_n_ctx\<close>) is not part of the file; it is a parameter of
  the model. Every call of the evaluator and of the sampler, every read from the input
  stream and every write to an output stream is recorded, in order, in a trace kept in
  the state, so that statements about which calls happen can be made about the trace.

  C++ \<open>int\<close> variables are modelled by \<open>int\<close>; no claim treated here depends on
  arithmetic overflow. The floating-point sampling parameters are passed through to the
  sampler unchanged and are left out.
\<close>

subsection \<open>Data\<close>

type_synonym llama_token = int

datatype console_state = CONSOLE_STATE_DEFAULT | CONSOLE_STATE_PROMPT | CONSOLE_STATE_USER_INPUT

text \<open>The three output sinks the code writes to: the \<open>outstream\<close> and \<open>errstream\<close>
  arguments of \<open>run\<close>, and the process's \<open>stdout\<close> used by the signal handler.\<close>

datatype sink = Outstream | Errstream | Stdout

datatype event =
    Eval "llama_token list" int        \<comment> \<open>\<open>llama_eval(ctx, tokens, n, n_past, ...)\<close>\<close>
  | ZeroEosLogit                       \<comment> \<open>\<open>logits[llama_token_eos()] = 0\<close>\<close>
  | Sample "llama_token list"          \<comment> \<open>\<open>llama_sample_top_p_top_k\<close> on the window\<close>
  | Getline                            \<comment> \<open>\<open>std::getline(instream, line)\<close>\<close>
  | Print sink string                  \<comment> \<open>\<open>fprintf\<close>/\<open>printf\<close>\<close>
  | PrintTimings                       \<comment> \<open>\<open>llama_print_timings(ctx)\<close>\<close>
  | Free                               \<comment> \<open>\<open>llama_free(ctx)\<close>\<close>

text \<open>Ways in which the C++ program stops without returning from \<open>run\<close>.\<close>

datatype failure =
    LengthError       \<comment> \<open>\<open>std::vector\<close> constructed with a negative size converted to \<open>size_t\<close>\<close>
  | EraseEmpty        \<comment> \<open>\<open>erase(begin())\<close> on an empty vector: undefined behaviour\<close>
  | BackEmpty         \<comment> \<open>\<open>back()\<close> on an empty vector: undefined behaviour\<close>
  | IndexOutOfRange   \<comment> \<open>\<open>operator[]\<close> outside the vector: undefined behaviour\<close>
  | AssertFailed      \<comment> \<open>\<open>assert(params.perplexity == false)\<close> fails\<close>
  | Exit int          \<comment> \<open>\<open>_exit(status)\<close>\<close>

text \<open>The input stream: the characters not yet read, and whether the stream is still good
  (neither \<open>eofbit\<close> nor \<open>failbit\<close> set).\<close>

record istream =
  content :: string
  good :: bool

text \<open>The fields of \<open>gpt_params\<close> that \<open>run\<close> reads.\<close>

record gpt_params =
  n_predict :: int
  repeat_last_n :: int
  n_batch :: int
  prompt :: string
  antiprompt :: "string list"
  random_prompt :: bool
  use_color :: bool
  interactive :: bool
  interactive_start :: bool
  instruct :: bool
  ignore_eos :: bool
  perplexity :: bool

text \<open>
  The backend. \<open>llama_eval_fails k toks n_past\<close> tells whether the call number \<open>k\<close>
  (counted from 0 over all calls of \<open>llama_eval\<close>) returns non-zero;
  \<open>llama_sample k window\<close> is the token returned by the call number \<open>k\<close> of the
  sampler. Indexing by the call number lets the functions stand for any backend,
  stateful or random: whatever a backend answers during one session is some such pair of
  functions.
\<close>

record backend =
  llama_tokenize :: "string \<Rightarrow> bool \<Rightarrow> llama_token list"
  llama_token_to_str :: "llama_token \<Rightarrow> string"
  llama_token_eos :: llama_token
  llama_n_ctx :: int
  llama_eval_fails :: "nat \<Rightarrow> llama_token list \<Rightarrow> int \<Rightarrow> bool"
  llama_sample :: "nat \<Rightarrow> llama_token list \<Rightarrow> llama_token"
  gpt_random_prompt :: string

text \<open>The file-level statics \<open>con_st\<close>, \<open>con_use_color\<close>, \<open>is_interacting\<close>, the locals
  of \<open>run\<close> that live across loop iterations, the input stream and the trace.\<close>

record state =
  con_st :: console_state
  con_use_color :: bool
  is_interacting :: bool
  n_past :: int
  embd_inp :: "llama_token list"
  embd :: "llama_token list"
  last_n_tokens :: "llama_token list"
  input_consumed :: int
  input_noecho :: bool
  remaining_tokens :: int
  instream :: istream
  trace :: "event list"

definition emit :: "event \<Rightarrow> state \<Rightarrow> state" where
  "emit e st = st\<lparr>trace := trace st @ [e]\<rparr>"

fun is_Sample :: "event \<Rightarrow> bool" where
  "is_Sample (Sample w) = True"
| "is_Sample e = False"

fun is_Eval :: "event \<Rightarrow> bool" where
  "is_Eval (Eval ts n) = True"
| "is_Eval e = False"

fun is_Getline :: "event \<Rightarrow> bool" where
  "is_Getline Getline = True"
| "is_Getline e = False"

definition n_samples :: "event list \<Rightarrow> nat" where
  "n_samples tr = length (filter is_Sample tr)"

definition n_evals :: "event list \<Rightarrow> nat" where
  "n_evals tr = length (filter is_Eval tr)"

definition n_getlines :: "event list \<Rightarrow> nat" where
  "n_getlines tr = length (filter is_Getline tr)"

subsection \<open>Console state\<close>

definition ESC :: char where "ESC = CHR 0x1B"

definition ANSI_COLOR_RESET :: string where "ANSI_COLOR_RESET = ESC # ''[0m''"
definition ANSI_COLOR_YELLOW :: string where "ANSI_COLOR_YELLOW = ESC # ''[33m''"
definition ANSI_COLOR_GREEN :: string where "ANSI_COLOR_GREEN = ESC # ''[32m''"
definition ANSI_BOLD :: string where "ANSI_BOLD = ESC # ''[1m''"

fun color_code :: "console_state \<Rightarrow> string" where
  "color_code CONSOLE_STATE_DEFAULT = ANSI_COLOR_RESET"
| "color_code CONSOLE_STATE_PROMPT = ANSI_COLOR_YELLOW"
| "color_code CONSOLE_STATE_USER_INPUT = ANSI_BOLD @ ANSI_COLOR_GREEN"

definition set_console_state :: "sink \<Rightarrow> console_state \<Rightarrow> state \<Rightarrow> state" where
  "set_console_state stream new_st st =
     (if \<not> con_use_color st then st
      else if new_st \<noteq> con_st st
        then emit (Print stream (color_code new_st)) (st\<lparr>con_st := new_st\<rparr>)
        else st)"

subsection \<open>The SIGINT handler\<close>

definition SIGINT :: int where "SIGINT = 2"

text \<open>The handler either lets the process go on in a new state, or ends it with
  \<open>_exit(130)\<close>.\<close>

definition sigint_handler :: "int \<Rightarrow> state \<Rightarrow> failure \<times> state + state" where
  "sigint_handler signo st =
     (let st1 = set_console_state Stdout CONSOLE_STATE_DEFAULT st;
          st2 = emit (Print Stdout [CHR 0x0A]) st1
      in if signo = SIGINT
         then (if \<not> is_interacting st2 then Inr (st2\<lparr>is_interacting := True\<rparr>)
               else Inl (Exit 130, st2))
         else Inr st2)"

subsection \<open>Reading user input\<close>

text \<open>
  \<open>std::getline(instream, line)\<close>: on a stream that is not good the string is left as it
  is. Otherwise the string is erased and characters are moved into it up to a newline,
  which is dropped; when the end of the stream is reached first, \<open>eofbit\<close> is set (and,
  if nothing was read, \<open>failbit\<close>), so the stream is not good afterwards.
\<close>

definition getline :: "istream \<Rightarrow> string \<Rightarrow> string \<times> istream" where
  "getline s line =
     (if \<not> good s then (line, s)
      else (case dropWhile (\<lambda>c. c \<noteq> CHR 0x0A) (content s) of
              [] \<Rightarrow> (content s, \<lparr>content = [], good = False\<rparr>)
            | nl # rest \<Rightarrow> (takeWhile (\<lambda>c. c \<noteq> CHR 0x0A) (content s),
                           \<lparr>content = rest, good = True\<rparr>)))"

text \<open>The \<open>do ... while (another_line)\<close> loop of lines 309 to 317, on the stream, the
  local \<open>line\<close> and the local \<open>buffer\<close>; it returns the buffer, the stream and the number
  of \<open>getline\<close> calls made.\<close>

function read_lines :: "istream \<Rightarrow> string \<Rightarrow> string \<Rightarrow> nat \<Rightarrow> string \<times> istream \<times> nat" where
  "read_lines s line buffer k =
     (let (line1, s1) = getline s line in
      if line1 = [] \<or> last line1 \<noteq> CHR 0x5C
      then (buffer @ line1 @ [CHR 0x0A], s1, Suc k)
      else read_lines s1 (butlast line1) (buffer @ butlast line1 @ [CHR 0x0A]) (Suc k))"
  by pat_completeness auto
termination read_lines
proof (relation "measures [\<lambda>(s, line, buffer, k). length (content s) + (if good s then 1 else 0),
                           \<lambda>(s, line, buffer, k). length line]", goal_cases)
  case 1
  then show ?case by simp
next
  case (2 s line buffer k x line1 s1)
  then show ?case
    using length_dropWhile_le [of "\<lambda>c. c \<noteq> CHR 0x0A" "content s"]
    by (auto simp: getline_def split: if_splits list.splits)
qed

subsection \<open>Reverse prompts\<close>

text \<open>Subtraction of two \<open>size_t\<close> values (64 bits): it wraps around.\<close>

definition size_t_sub :: "nat \<Rightarrow> nat \<Rightarrow> int" where
  "size_t_sub a b = (int a - int b) mod 2 ^ 64"

text \<open>\<open>str.find(s, pos, count)\<close> where \<open>s\<close> holds \<open>count\<close> characters and \<open>pos\<close> is the
  value of a \<open>size_t\<close>: the lowest position \<open>i \<ge> pos\<close> with \<open>i + count \<le> str.size()\<close> at
  which \<open>s\<close> occurs in \<open>str\<close>; \<open>None\<close> is \<open>npos\<close>.\<close>

definition string_find :: "string \<Rightarrow> string \<Rightarrow> int \<Rightarrow> nat option" where
  "string_find str s pos =
     (if length s \<le> length str \<and> pos \<le> int (length str) - int (length s)
      then List.find (\<lambda>i. take (length s) (drop i str) = s)
             [nat pos ..< Suc (length str - length s)]
      else None)"

text \<open>The loop of lines 289 to 294 over the reverse prompts; the last argument and the
  result are the flag \<open>is_interacting\<close>.\<close>

fun check_antiprompts :: "string \<Rightarrow> string list \<Rightarrow> bool \<Rightarrow> bool" where
  "check_antiprompts last_output [] flag = flag"
| "check_antiprompts last_output (a # as) flag =
     (if string_find last_output a (size_t_sub (length last_output) (length a)) \<noteq> None
      then True
      else check_antiprompts last_output as flag)"

subsection \<open>One iteration of the main loop\<close>

definition inp_pfx :: "backend \<Rightarrow> llama_token list" where
  "inp_pfx be = llama_tokenize be ''\<newline>\<newline>### Instruction:\<newline>\<newline>'' True"

definition inp_sfx :: "backend \<Rightarrow> llama_token list" where
  "inp_sfx be = llama_tokenize be ''\<newline>\<newline>### Response:\<newline>\<newline>'' False"

text \<open>Lines 221 to 253: the queue is drained, one token is sampled.\<close>

definition sample_next :: "backend \<Rightarrow> gpt_params \<Rightarrow> state \<Rightarrow> failure \<times> state + state" where
  "sample_next be params st =
     (if ignore_eos params \<and> perplexity params then Inl (AssertFailed, st)
      else
        let st1 = (if ignore_eos params then emit ZeroEosLogit st else st);
            id1 = llama_sample be (n_samples (trace st1)) (last_n_tokens st1);
            st2 = emit (Sample (last_n_tokens st1)) st1
        in case last_n_tokens st2 of
             [] \<Rightarrow> Inl (EraseEmpty, st2)
           | oldest # rest \<Rightarrow>
               Inr (st2\<lparr>last_n_tokens := rest @ [id1],
                        embd := embd st2 @ [id1],
                        input_noecho := False,
                        remaining_tokens := remaining_tokens st2 - 1\<rparr>))"

text \<open>Lines 256 to 264: pending tokens are forwarded, until the queue is drained or the
  batch holds \<open>n_batch\<close> tokens.\<close>

function forward_input :: "gpt_params \<Rightarrow> state \<Rightarrow> failure \<times> state + state" where
  "forward_input params st =
     (if int (length (embd_inp st)) > input_consumed st then
        (if input_consumed st < 0 then Inl (IndexOutOfRange, st)
         else
           let tok = embd_inp st ! nat (input_consumed st);
               st1 = st\<lparr>embd := embd st @ [tok]\<rparr>
           in case last_n_tokens st1 of
                [] \<Rightarrow> Inl (EraseEmpty, st1)
              | oldest # rest \<Rightarrow>
                  let st2 = st1\<lparr>last_n_tokens := rest @ [tok],
                                input_consumed := input_consumed st1 + 1\<rparr>
                  in if int (length (embd st2)) \<ge> n_batch params then Inr st2
                     else forward_input params st2)
      else Inr st)"
  by pat_completeness auto
termination
  by (relation "measure (\<lambda>(params, st). nat (int (length (embd_inp st)) - input_consumed st))")
     auto

text \<open>Lines 268 to 277: echo the batch.\<close>

definition display :: "backend \<Rightarrow> state \<Rightarrow> state" where
  "display be st =
     (let st1 = (if \<not> input_noecho st
                 then st\<lparr>trace := trace st @
                        map (\<lambda>id1. Print Outstream (llama_token_to_str be id1)) (embd st)\<rparr>
                 else st)
      in if \<not> input_noecho st1 \<and> int (length (embd_inp st1)) = input_consumed st1
         then set_console_state Outstream CONSOLE_STATE_DEFAULT st1
         else st1)"

text \<open>Lines 296 to 331: the user is asked for input.\<close>

definition read_user_input :: "backend \<Rightarrow> gpt_params \<Rightarrow> state \<Rightarrow> state" where
  "read_user_input be params st =
     (let st1 = set_console_state Outstream CONSOLE_STATE_USER_INPUT st;
          st2 = (if instruct params
                 then emit (Print Outstream ''\<newline>> '')
                        (st1\<lparr>input_consumed := int (length (embd_inp st1)),
                             embd_inp := embd_inp st1 @ inp_pfx be\<rparr>)
                 else st1);
          (buffer, s', k) = read_lines (instream st2) [] [] 0;
          st3 = st2\<lparr>instream := s', trace := trace st2 @ replicate k Getline\<rparr>;
          st4 = set_console_state Outstream CONSOLE_STATE_DEFAULT st3;
          line_inp = llama_tokenize be buffer False;
          st5 = st4\<lparr>embd_inp := embd_inp st4 @ line_inp\<rparr>;
          st6 = (if instruct params then st5\<lparr>embd_inp := embd_inp st5 @ inp_sfx be\<rparr> else st5)
      in st6\<lparr>remaining_tokens := remaining_tokens st6 - int (length line_inp),
             input_noecho := True\<rparr>)"

text \<open>Lines 281 to 334.\<close>

definition check_interaction :: "backend \<Rightarrow> gpt_params \<Rightarrow> state \<Rightarrow> state" where
  "check_interaction be params st =
     (if interactive params \<and> int (length (embd_inp st)) \<le> input_consumed st then
        let last_output = concat (map (llama_token_to_str be) (last_n_tokens st));
            st1 = st\<lparr>is_interacting :=
                        check_antiprompts last_output (antiprompt params) (is_interacting st)\<rparr>;
            st2 = (if is_interacting st1 then read_user_input be params st1 else st1)
        in st2\<lparr>is_interacting := False\<rparr>
      else st)"

datatype outcome =
    Next state          \<comment> \<open>the end of the loop body is reached\<close>
  | Break state         \<comment> \<open>\<open>break\<close>\<close>
  | Return int state    \<comment> \<open>\<open>return\<close> from inside the loop\<close>
  | Abort failure state

text \<open>Lines 347 to 350.\<close>

definition refill_budget :: "gpt_params \<Rightarrow> state \<Rightarrow> state" where
  "refill_budget params st =
     (if interactive params \<and> remaining_tokens st \<le> 0
      then st\<lparr>remaining_tokens := n_predict params, is_interacting := True\<rparr>
      else st)"

text \<open>Lines 337 to 350.\<close>

definition check_eos :: "backend \<Rightarrow> gpt_params \<Rightarrow> state \<Rightarrow> outcome" where
  "check_eos be params st =
     (if embd st = [] then Abort BackEmpty st
      else if last (embd st) = llama_token_eos be then
        (if interactive params
         then Next (refill_budget params (st\<lparr>is_interacting := True\<rparr>))
         else Break (emit (Print Errstream '' [end of text]\<newline>'') st))
      else Next (refill_budget params st))"

text \<open>Lines 209 to 334, the loop body up to the end-of-text check: \<open>Next s\<close> means that
  control reaches line 336 in state \<open>s\<close>.\<close>

definition generate :: "backend \<Rightarrow> gpt_params \<Rightarrow> state \<Rightarrow> outcome" where
  "generate be params st =
     (if embd st \<noteq> [] \<and> llama_eval_fails be (n_evals (trace st)) (embd st) (n_past st)
      then Return 1 (emit (Print Errstream ''run : failed to eval\<newline>'')
                      (emit (Eval (embd st) (n_past st)) st))
      else
        let st1 = (if embd st \<noteq> [] then emit (Eval (embd st) (n_past st)) st else st);
            st2 = st1\<lparr>n_past := n_past st1 + int (length (embd st1)), embd := []\<rparr>
        in case (if int (length (embd_inp st2)) \<le> input_consumed st2
                 then sample_next be params st2
                 else forward_input params st2) of
             Inl (f, s) \<Rightarrow> Abort f s
           | Inr st3 \<Rightarrow> Next (check_interaction be params (display be st3)))"

text \<open>The body of the \<open>while\<close> loop, lines 209 to 350.\<close>

definition iteration :: "backend \<Rightarrow> gpt_params \<Rightarrow> state \<Rightarrow> outcome" where
  "iteration be params st =
     (case generate be params st of
        Next s \<Rightarrow> check_eos be params s
      | Break s \<Rightarrow> Break s
      | Return c s \<Rightarrow> Return c s
      | Abort f s \<Rightarrow> Abort f s)"

fun outcome_state :: "outcome \<Rightarrow> state" where
  "outcome_state (Next s) = s"
| "outcome_state (Break s) = s"
| "outcome_state (Return c s) = s"
| "outcome_state (Abort f s) = s"

subsection \<open>The function \<open>run\<close>\<close>

datatype result = Returned int state | Aborted failure state

text \<open>Lines 357 to 363.\<close>

definition finish :: "state \<Rightarrow> result" where
  "finish st =
     Returned 0 (set_console_state Outstream CONSOLE_STATE_DEFAULT (emit Free (emit PrintTimings st)))"

text \<open>The \<open>while\<close> loop of line 208. In interactive mode it does not end by itself, so the
  model takes a bound on the number of iterations; \<open>None\<close> means the bound was reached.\<close>

fun main_loop :: "backend \<Rightarrow> gpt_params \<Rightarrow> nat \<Rightarrow> state \<Rightarrow> result option" where
  "main_loop be params 0 st = None"
| "main_loop be params (Suc fuel) st =
     (if remaining_tokens st > 0 \<or> interactive params then
        (case iteration be params st of
           Next s \<Rightarrow> main_loop be params fuel s
         | Break s \<Rightarrow> Some (finish s)
         | Return c s \<Rightarrow> Some (Returned c s)
         | Abort f s \<Rightarrow> Some (Aborted f s))
      else Some (finish st))"

text \<open>The state at the head of the loop after \<open>n\<close> complete iterations, if there is one.\<close>

fun loop_state :: "backend \<Rightarrow> gpt_params \<Rightarrow> nat \<Rightarrow> state \<Rightarrow> state option" where
  "loop_state be params 0 st = Some st"
| "loop_state be params (Suc n) st =
     (if remaining_tokens st > 0 \<or> interactive params then
        (case iteration be params st of
           Next s \<Rightarrow> loop_state be params n s
         | Break s \<Rightarrow> None
         | Return c s \<Rightarrow> None
         | Abort f s \<Rightarrow> None)
      else None)"

text \<open>Lines 130 to 143: the modes that switch interactive mode on.\<close>

definition apply_modes :: "gpt_params \<Rightarrow> gpt_params" where
  "apply_modes params =
     (let p1 = (if instruct params
                then params\<lparr>interactive := True,
                            antiprompt := antiprompt params @ [''### Instruction:\<newline>\<newline>'']\<rparr>
                else params);
          p2 = (if antiprompt p1 \<noteq> [] then p1\<lparr>interactive := True\<rparr> else p1)
      in if interactive_start p2 then p2\<lparr>interactive := True\<rparr> else p2)"

text \<open>
  Lines 89 to 206, up to the loop: the parameters as the loop sees them and the state at
  the head of the first iteration. \<open>c0\<close> and \<open>i0\<close> are the values of the statics \<open>con_st\<close>
  and \<open>is_interacting\<close> when \<open>run\<close> is entered. The result of the first \<open>llama_eval\<close>
  (line 111) is not looked at by the code. The seed, the registration of the SIGINT
  handler (lines 153 to 161; the handler itself is \<open>sigint_handler\<close> above, a step that
  the system may take on the state at any time) and the informational output to
  \<open>errstream\<close> before the loop are left out.
\<close>

definition prepare ::
  "backend \<Rightarrow> gpt_params \<Rightarrow> istream \<Rightarrow> console_state \<Rightarrow> bool \<Rightarrow> failure \<times> state + gpt_params \<times> state" where
  "prepare be params0 ins c0 i0 =
     (let p1 = (if random_prompt params0 then params0\<lparr>prompt := gpt_random_prompt be\<rparr> else params0);
          p2 = p1\<lparr>prompt := CHR '' '' # prompt p1\<rparr>;
          inp = llama_tokenize be (prompt p2) True;
          p3 = p2\<lparr>n_predict := min (n_predict p2) (llama_n_ctx be - int (length inp))\<rparr>;
          p4 = apply_modes p3;
          st0 = \<lparr>con_st = c0, con_use_color = use_color p4,
                 is_interacting = (if interactive p4 then interactive_start p4 else i0),
                 n_past = 0, embd_inp = inp, embd = [],
                 last_n_tokens = replicate (nat (repeat_last_n p4)) 0,
                 input_consumed = 0, input_noecho = False,
                 remaining_tokens = n_predict p4,
                 instream = ins, trace = [Eval [0, 1, 2, 3] 0]\<rparr>
      in if repeat_last_n p4 < 0 then Inl (LengthError, st0)
         else Inr (p4, set_console_state Outstream CONSOLE_STATE_PROMPT st0))"

definition run ::
  "backend \<Rightarrow> gpt_params \<Rightarrow> istream \<Rightarrow> console_state \<Rightarrow> bool \<Rightarrow> nat \<Rightarrow> result option" where
  "run be params0 ins c0 i0 fuel =
     (case prepare be params0 ins c0 i0 of
        Inl (f, s) \<Rightarrow> Some (Aborted f s)
      | Inr (params, st) \<Rightarrow> main_loop be params fuel st)"

subsection \<open>Notions used in the proofs\<close>

text \<open>The state carried by the result of a fallible step; one pass of the forwarding
  loop; the fields that forwarding leaves alone; the state after the evaluation at the
  head of the loop body (lines 210 to 218); and the range of the cursor.\<close>

fun step_state :: "failure \<times> state + state \<Rightarrow> state" where
  "step_state (Inl (f, s)) = s"
| "step_state (Inr s) = s"

definition push_token :: "llama_token list \<Rightarrow> state \<Rightarrow> state" where
  "push_token rest st =
     st\<lparr>embd := embd st @ [embd_inp st ! nat (input_consumed st)],
        last_n_tokens := rest @ [embd_inp st ! nat (input_consumed st)],
        input_consumed := input_consumed st + 1\<rparr>"

definition same_frame :: "state \<Rightarrow> state \<Rightarrow> bool" where
  "same_frame s st =
     (trace s = trace st \<and> embd_inp s = embd_inp st \<and> is_interacting s = is_interacting st \<and>
      remaining_tokens s = remaining_tokens st \<and> n_past s = n_past st \<and>
      input_noecho s = input_noecho st \<and> instream s = instream st \<and>
      con_st s = con_st st \<and> con_use_color s = con_use_color st \<and>
      length (last_n_tokens s) = length (last_n_tokens st))"

definition after_eval :: "state \<Rightarrow> state" where
  "after_eval st =
     (if embd st \<noteq> [] then emit (Eval (embd st) (n_past st)) st else st)
       \<lparr>n_past := n_past st + int (length (embd st)), embd := []\<rparr>"

definition cursor_ok :: "state \<Rightarrow> bool" where
  "cursor_ok st = (0 \<le> input_consumed st \<and> input_consumed st \<le> int (length (embd_inp st)))"

text \<open>A part of the trace without calls of the backend and without reads of input.\<close>

definition quiet :: "event list \<Rightarrow> bool" where
  "quiet tr = (n_evals tr = 0 \<and> n_samples tr = 0 \<and> n_getlines tr = 0)"

subsection \<open>Sample sessions\<close>

text \<open>A state in which nothing has happened yet, and a small backend: the tokenizer maps
  each character to its code, after the marker token 1 when a leading marker is asked
  for; token 2 is the end-of-text token; evaluation never fails; the sampler returns the
  tokens of a given list, one per call, and the token 97 after that.\<close>

definition idle_state :: state where
  "idle_state =
     \<lparr>con_st = CONSOLE_STATE_DEFAULT, con_use_color = False, is_interacting = False,
      n_past = 0, embd_inp = [], embd = [], last_n_tokens = [], input_consumed = 0,
      input_noecho = False, remaining_tokens = 0,
      instream = \<lparr>content = [], good = True\<rparr>, trace = []\<rparr>"

definition stub_backend :: "llama_token list \<Rightarrow> backend" where
  "stub_backend answers =
     \<lparr>llama_tokenize = (\<lambda>text bos. (if bos then [1] else []) @ map (\<lambda>c. int (of_char c)) text),
      llama_token_to_str = (\<lambda>t. if t = 1 \<or> t = 2 then [] else [char_of t]),
      llama_token_eos = 2,
      llama_n_ctx = 512,
      llama_eval_fails = (\<lambda>k toks n. False),
      llama_sample = (\<lambda>k window. if k < length answers then answers ! k else 97),
      gpt_random_prompt = ''So''\<rparr>"

definition stub_params :: gpt_params where
  "stub_params =
     \<lparr>n_predict = 3, repeat_last_n = 4, n_batch = 8, prompt = ''Hi'', antiprompt = [],
      random_prompt = False, use_color = False, interactive = False,
      interactive_start = False, instruct = False, ignore_eos = False, perplexity = False\<rparr>"

text \<open>Parameters of a chat session with one reverse prompt, a state whose repetition
  window holds the tokens of a given text, and a state in which the user types
  \<open>hello\<close>.\<close>

definition chat_params :: gpt_params where
  "chat_params = stub_params\<lparr>interactive := True, antiprompt := [''### Instruction:\<newline>\<newline>'']\<rparr>"

definition window_state :: "string \<Rightarrow> state" where
  "window_state s = idle_state\<lparr>last_n_tokens := llama_tokenize (stub_backend []) s False\<rparr>"

definition hello_state :: state where
  "hello_state = idle_state\<lparr>embd_inp := [1, 72], input_consumed := 2,
                   instream := \<lparr>content = ''hello\<newline>'', good = True\<rparr>\<rparr>"

text \<open>A session without input on the prompt \<open>Hi\<close>: the parameters and the state at the
  head of the loop, after the first iteration (the prompt is forwarded) and after the
  second (one token is sampled).\<close>

definition empty_input :: istream where "empty_input = \<lparr>content = [], good = True\<rparr>"

definition hi_params :: gpt_params where "hi_params = stub_params\<lparr>prompt := '' Hi''\<rparr>"

definition hi_state0 :: state where
  "hi_state0 =
     \<lparr>con_st = CONSOLE_STATE_DEFAULT, con_use_color = False, is_interacting = False, n_past = 0,
      embd_inp = [1, 32, 72, 105], embd = [], last_n_tokens = [0, 0, 0, 0], input_consumed = 0,
      input_noecho = False, remaining_tokens = 3, instream = empty_input,
      trace = [Eval [0, 1, 2, 3] 0]\<rparr>"

definition hi_state1 :: state where
  "hi_state1 =
     hi_state0\<lparr>embd := [1, 32, 72, 105], last_n_tokens := [1, 32, 72, 105], input_consumed := 4,
       trace := [Eval [0, 1, 2, 3] 0, Print Outstream [], Print Outstream '' '',
                 Print Outstream ''H'', Print Outstream ''i'']\<rparr>"

definition hi_state2 :: state where
  "hi_state2 =
     hi_state1\<lparr>n_past := 4, embd := [97], last_n_tokens := [32, 72, 105, 97],
       remaining_tokens := 2,
       trace := [Eval [0, 1, 2, 3] 0, Print Outstream [], Print Outstream '' '',
                 Print Outstream ''H'', Print Outstream ''i'', Eval [1, 32, 72, 105] 0,
                 Sample [1, 32, 72, 105], Print Outstream ''a'']\<rparr>"

text \<open>A backend whose second call of the evaluator, the first one made by the loop,
  fails.\<close>

definition failing_backend :: backend where
  "failing_backend = (stub_backend [])\<lparr>llama_eval_fails := (\<lambda>k toks n. k = 1)\<rparr>"

text \<open>The parameters of an interactive session on the prompt \<open>Hi\<close> with a budget of 3
  tokens.\<close>

definition budget_params :: gpt_params where
  "budget_params = hi_params\<lparr>interactive := True\<rparr>"

text \<open>The state in which the second iteration of a session on the prompt \<open>Hi\<close> reaches the
  end-of-text check when the sampler has answered with the end-of-text token.\<close>

definition eos_state2 :: state where
  "eos_state2 =
     hi_state1\<lparr>n_past := 4, embd := [2], last_n_tokens := [32, 72, 105, 2],
       remaining_tokens := 2,
       trace := [Eval [0, 1, 2, 3] 0, Print Outstream [], Print Outstream '' '',
                 Print Outstream ''H'', Print Outstream ''i'', Eval [1, 32, 72, 105] 0,
                 Sample [1, 32, 72, 105], Print Outstream []]\<rparr>"

section \<open>Properties\<close>

subsection \<open>Field lemmas\<close>

lemma emit_fields [simp]:
  "trace (emit e st) = trace st @ [e]"
  "con_st (emit e st) = con_st st"
  "con_use_color (emit e st) = con_use_color st"
  "is_interacting (emit e st) = is_interacting st"
  "n_past (emit e st) = n_past st"
  "embd_inp (emit e st) = embd_inp st"
  "embd (emit e st) = embd st"
  "last_n_tokens (emit e st) = last_n_tokens st"
  "input_consumed (emit e st) = input_consumed st"
  "input_noecho (emit e st) = input_noecho st"
  "remaining_tokens (emit e st) = remaining_tokens st"
  "instream (emit e st) = instream st"
  by (simp_all add: emit_def)

lemma set_console_state_fields [simp]:
  "is_interacting (set_console_state k c st) = is_interacting st"
  "n_past (set_console_state k c st) = n_past st"
  "embd_inp (set_console_state k c st) = embd_inp st"
  "embd (set_console_state k c st) = embd st"
  "last_n_tokens (set_console_state k c st) = last_n_tokens st"
  "input_consumed (set_console_state k c st) = input_consumed st"
  "input_noecho (set_console_state k c st) = input_noecho st"
  "remaining_tokens (set_console_state k c st) = remaining_tokens st"
  "instream (set_console_state k c st) = instream st"
  "con_use_color (set_console_state k c st) = con_use_color st"
  by (simp_all add: set_console_state_def)

lemma set_console_state_trace:
  "trace (set_console_state k c st) =
     trace st @ (if con_use_color st \<and> c \<noteq> con_st st then [Print k (color_code c)] else [])"
  by (simp add: set_console_state_def)

lemma n_samples_simps [simp]:
  "n_samples [] = 0"
  "n_samples (xs @ ys) = n_samples xs + n_samples ys"
  "n_samples (e # xs) = (if is_Sample e then 1 else 0) + n_samples xs"
  by (simp_all add: n_samples_def)

lemma n_evals_simps [simp]:
  "n_evals [] = 0"
  "n_evals (xs @ ys) = n_evals xs + n_evals ys"
  "n_evals (e # xs) = (if is_Eval e then 1 else 0) + n_evals xs"
  by (simp_all add: n_evals_def)

lemma n_getlines_simps [simp]:
  "n_getlines [] = 0"
  "n_getlines (xs @ ys) = n_getlines xs + n_getlines ys"
  "n_getlines (e # xs) = (if is_Getline e then 1 else 0) + n_getlines xs"
  by (simp_all add: n_getlines_def)

lemma n_getlines_replicate [simp]: "n_getlines (replicate k Getline) = k"
  by (induction k) simp_all

lemma set_console_state_counts [simp]:
  "n_samples (trace (set_console_state k c st)) = n_samples (trace st)"
  "n_evals (trace (set_console_state k c st)) = n_evals (trace st)"
  "n_getlines (trace (set_console_state k c st)) = n_getlines (trace st)"
  by (simp_all add: set_console_state_trace)

subsection \<open>The interrupt handler\<close>

text \<open>
  Claim C8. When SIGINT arrives while \<open>is_interacting\<close> is not set, the handler sets the
  flag and the process goes on. When SIGINT arrives in any state in which the flag is
  still set, in particular directly after the first signal, the handler ends the process
  with \<open>_exit(130)\<close> and sets nothing.
\<close>

theorem sigint_handler_second_interrupt_exits:
  assumes "\<not> is_interacting st"
  shows "\<exists>st1. sigint_handler SIGINT st = Inr st1 \<and> is_interacting st1 \<and>
           (\<exists>st2. sigint_handler SIGINT st1 = Inl (Exit 130, st2)) \<and>
           (\<forall>st'. is_interacting st' \<longrightarrow> (\<exists>st2. sigint_handler SIGINT st' = Inl (Exit 130, st2)))"
  using assms by (simp add: sigint_handler_def Let_def)

theorem sigint_handler_second_interrupt_exits_witness:
  "\<not> is_interacting idle_state \<and>
   sigint_handler SIGINT idle_state =
     Inr (idle_state\<lparr>is_interacting := True, trace := [Print Stdout ''\<newline>'']\<rparr>) \<and>
   sigint_handler SIGINT (idle_state\<lparr>is_interacting := True, trace := [Print Stdout ''\<newline>'']\<rparr>) =
     Inl (Exit 130, idle_state\<lparr>is_interacting := True,
                               trace := [Print Stdout ''\<newline>'', Print Stdout ''\<newline>'']\<rparr>)"
  using sigint_handler_second_interrupt_exits [of idle_state]
  by (simp add: idle_state_def sigint_handler_def Let_def set_console_state_def emit_def)

subsection \<open>Modes that imply interactive mode\<close>

text \<open>
  Claim C9. After lines 130 to 143 interactive mode is on exactly when the interactive
  flag was set, or instruct mode is on, or there is at least one reverse prompt, or the
  flag to start in input mode is set; and instruct mode appends the string
  \<open>"### Instruction:\n\n"\<close> to the reverse prompts.
\<close>

theorem apply_modes_interactive:
  "interactive (apply_modes p) =
     (interactive p \<or> instruct p \<or> antiprompt p \<noteq> [] \<or> interactive_start p) \<and>
   antiprompt (apply_modes p) =
     (if instruct p then antiprompt p @ [''### Instruction:\<newline>\<newline>''] else antiprompt p)"
  by (simp add: apply_modes_def Let_def)

theorem apply_modes_interactive_witness:
  "interactive (apply_modes (stub_params\<lparr>instruct := True\<rparr>)) \<and>
   antiprompt (apply_modes (stub_params\<lparr>instruct := True\<rparr>)) = [''### Instruction:\<newline>\<newline>''] \<and>
   interactive (apply_modes (stub_params\<lparr>antiprompt := [''User:'']\<rparr>)) \<and>
   interactive (apply_modes (stub_params\<lparr>interactive_start := True\<rparr>)) \<and>
   \<not> interactive (apply_modes stub_params)"
  using apply_modes_interactive [of "stub_params\<lparr>instruct := True\<rparr>"]
    apply_modes_interactive [of "stub_params\<lparr>antiprompt := [''User:'']\<rparr>"]
    apply_modes_interactive [of "stub_params\<lparr>interactive_start := True\<rparr>"]
    apply_modes_interactive [of "stub_params"]
  by (simp add: stub_params_def)

subsection \<open>Reverse prompts are matched as suffixes\<close>

lemma size_t_sub_le: "b \<le> a \<Longrightarrow> a < 2 ^ 64 \<Longrightarrow> size_t_sub a b = int (a - b)"
  by (simp add: size_t_sub_def of_nat_diff)

lemma size_t_sub_gt: "a < b \<Longrightarrow> int a - int b < size_t_sub a b"
proof -
  assume "a < b"
  then have "int a - int b < 0" by simp
  moreover have "0 \<le> size_t_sub a b" by (simp add: size_t_sub_def)
  ultimately show ?thesis by linarith
qed

lemma take_drop_suffix:
  assumes "length a \<le> length s"
  shows "(take (length a) (drop (length s - length a) s) = a) = suffix a s"
proof
  assume "take (length a) (drop (length s - length a) s) = a"
  then have "drop (length s - length a) s = a" using assms by simp
  then show "suffix a s" by (metis suffix_drop)
next
  assume "suffix a s"
  then obtain p where "s = p @ a" by (auto simp: suffix_def)
  then show "take (length a) (drop (length s - length a) s) = a" by simp
qed

lemma string_find_suffix:
  assumes "length s < 2 ^ 64"
  shows "(string_find s a (size_t_sub (length s) (length a)) = None) = (\<not> suffix a s)"
proof (cases "length a \<le> length s")
  case True
  then have pos: "size_t_sub (length s) (length a) = int (length s - length a)"
    using assms by (simp add: size_t_sub_le)
  have le: "size_t_sub (length s) (length a) \<le> int (length s) - int (length a)"
    using True by (simp add: pos of_nat_diff)
  have upt: "[nat (size_t_sub (length s) (length a)) ..< Suc (length s - length a)]
               = [length s - length a]"
    by (simp add: pos)
  have "string_find s a (size_t_sub (length s) (length a)) =
          (if take (length a) (drop (length s - length a) s) = a
           then Some (length s - length a) else None)"
    unfolding string_find_def upt using True le by simp
  then show ?thesis
    using take_drop_suffix [OF True] by (simp split: if_splits)
next
  case False
  then have "\<not> suffix a s" by (auto dest: suffix_length_le)
  moreover have "string_find s a (size_t_sub (length s) (length a)) = None"
    using False size_t_sub_gt [of "length s" "length a"] by (simp add: string_find_def)
  ultimately show ?thesis by simp
qed

lemma check_antiprompts_suffix:
  assumes "length s < 2 ^ 64"
  shows "check_antiprompts s as flag = (flag \<or> (\<exists>a \<in> set as. suffix a s))"
  using assms by (induction as) (auto simp: string_find_suffix)

lemma read_lines_calls: "read_lines s line buffer k = (b, s', k') \<Longrightarrow> k < k'"
proof (induction s line buffer k rule: read_lines.induct)
  case (1 s line buffer k)
  obtain line1 s1 where g: "getline s line = (line1, s1)" by (cases "getline s line")
  show ?case
  proof (cases "line1 = [] \<or> last line1 \<noteq> CHR 0x5C")
    case True
    then show ?thesis using "1.prems" g by (simp add: read_lines.simps [of s])
  next
    case False
    then have "read_lines s1 (butlast line1) (buffer @ butlast line1 @ [CHR 0x0A]) (Suc k) = (b, s', k')"
      using "1.prems" g by (simp add: read_lines.simps [of s])
    from "1.IH" [OF g [symmetric] refl False this] show ?thesis by simp
  qed
qed

lemma getline_line:
  assumes "good s" "content s = utext @ CHR 0x0A # rest" "CHR 0x0A \<notin> set utext"
  shows "getline s line = (utext, \<lparr>content = rest, good = True\<rparr>)"
proof -
  have "dropWhile (\<lambda>c. c \<noteq> CHR 0x0A) (utext @ CHR 0x0A # rest) = CHR 0x0A # rest"
    using assms(3) by (induction utext) auto
  moreover have "takeWhile (\<lambda>c. c \<noteq> CHR 0x0A) (utext @ CHR 0x0A # rest) = utext"
    using assms(3) by (induction utext) auto
  ultimately show ?thesis using assms(1,2) by (simp add: getline_def)
qed

lemma read_lines_single:
  assumes "good s" "content s = utext @ CHR 0x0A # rest" "CHR 0x0A \<notin> set utext"
    and "utext = [] \<or> last utext \<noteq> CHR 0x5C"
  shows "read_lines s line buffer k =
           (buffer @ utext @ [CHR 0x0A], \<lparr>content = rest, good = True\<rparr>, Suc k)"
proof -
  have "getline s line = (utext, \<lparr>content = rest, good = True\<rparr>)"
    using assms(1,2,3) by (rule getline_line)
  then show ?thesis
    using assms(4) by (subst read_lines.simps) simp
qed

lemma read_user_input_getlines:
  "n_getlines (trace st) < n_getlines (trace (read_user_input be params st))"
proof -
  obtain b s' k where r: "read_lines (instream st) [] [] 0 = (b, s', k)"
    by (cases "read_lines (instream st) [] [] 0") auto
  then have "0 < k" using read_lines_calls by blast
  then show ?thesis using r by (simp add: read_user_input_def Let_def)
qed

text \<open>
  Claim C4. At the check of lines 281 to 294 (interactive mode, queue drained), with no
  interjection pending, the user is asked for input exactly when one of the reverse
  prompts is a suffix of the text rendered from the repetition window; otherwise the
  check leaves the state as it is. Being a suffix is equality of characters, so a text
  that differs from a reverse prompt in letter case does not match. The rendered text
  is shorter than \<open>2 ^ 64\<close> characters, as any \<open>std::string\<close> is.
\<close>

theorem antiprompt_exact_suffix:
  assumes "interactive params"
    and "int (length (embd_inp st)) \<le> input_consumed st"
    and "length (concat (map (llama_token_to_str be) (last_n_tokens st))) < 2 ^ 64"
    and "\<not> is_interacting st"
  shows "if (\<exists>a \<in> set (antiprompt params).
               suffix a (concat (map (llama_token_to_str be) (last_n_tokens st))))
         then check_interaction be params st =
                (read_user_input be params (st\<lparr>is_interacting := True\<rparr>))\<lparr>is_interacting := False\<rparr> \<and>
              n_getlines (trace st) < n_getlines (trace (check_interaction be params st))
         else check_interaction be params st = st"
  using assms read_user_input_getlines [of "st\<lparr>is_interacting := True\<rparr>" be params]
  by (simp add: check_interaction_def Let_def check_antiprompts_suffix)

theorem antiprompt_exact_suffix_witness:
  "n_getlines (trace (window_state ''A: ### Instruction:\<newline>\<newline>''))
     < n_getlines (trace (check_interaction (stub_backend []) chat_params
                            (window_state ''A: ### Instruction:\<newline>\<newline>''))) \<and>
   check_interaction (stub_backend []) chat_params (window_state ''A: ### instruction:\<newline>\<newline>'')
     = window_state ''A: ### instruction:\<newline>\<newline>''"
proof -
  have p: "interactive chat_params"
    "antiprompt chat_params = [''### Instruction:\<newline>\<newline>'']"
    by (simp_all add: chat_params_def stub_params_def)
  have s: "int (length (embd_inp (window_state u))) \<le> input_consumed (window_state u)"
    "\<not> is_interacting (window_state u)" for u
    by (simp_all add: window_state_def idle_state_def)
  have hit: "concat (map (llama_token_to_str (stub_backend []))
                 (last_n_tokens (window_state ''A: ### Instruction:\<newline>\<newline>'')))
               = ''A: ### Instruction:\<newline>\<newline>''"
    by (simp add: window_state_def stub_backend_def char_of_def)
  have miss: "concat (map (llama_token_to_str (stub_backend []))
                 (last_n_tokens (window_state ''A: ### instruction:\<newline>\<newline>'')))
               = ''A: ### instruction:\<newline>\<newline>''"
    by (simp add: window_state_def stub_backend_def char_of_def)
  have "n_getlines (trace (window_state ''A: ### Instruction:\<newline>\<newline>''))
     < n_getlines (trace (check_interaction (stub_backend []) chat_params
                            (window_state ''A: ### Instruction:\<newline>\<newline>'')))"
    using antiprompt_exact_suffix [of chat_params "window_state ''A: ### Instruction:\<newline>\<newline>''"
        "stub_backend []"] p(1) s [of "''A: ### Instruction:\<newline>\<newline>''"]
    by (auto simp add: hit p(2) suffix_def)
  moreover have "check_interaction (stub_backend []) chat_params
                   (window_state ''A: ### instruction:\<newline>\<newline>'')
                 = window_state ''A: ### instruction:\<newline>\<newline>''"
    using antiprompt_exact_suffix [of chat_params "window_state ''A: ### instruction:\<newline>\<newline>''"
        "stub_backend []"] p(1) s [of "''A: ### instruction:\<newline>\<newline>''"]
    by (simp add: miss p(2) suffix_def)
  ultimately show ?thesis by simp
qed

subsection \<open>Instruct mode wraps the user's input\<close>

text \<open>
  Claim C5. In instruct mode, when the user submits one line of text (\<open>hello\<close>, say; a
  line that does not end in a backslash), the pending queue grows by the tokens of
  \<open>"\n\n### Instruction:\n\n"\<close>, then the tokens of the line followed by a newline, then
  the tokens of \<open>"\n\n### Response:\n\n"\<close>; and the cursor is set to the length the queue
  had before, so that exactly these tokens are pending.
\<close>

theorem instruct_input_wrapping:
  assumes "instruct params"
    and "good (instream st)"
    and "content (instream st) = utext @ CHR 0x0A # rest"
    and "CHR 0x0A \<notin> set utext"
    and "utext = [] \<or> last utext \<noteq> CHR 0x5C"
  shows "embd_inp (read_user_input be params st) =
           embd_inp st @ llama_tokenize be ''\<newline>\<newline>### Instruction:\<newline>\<newline>'' True
             @ llama_tokenize be (utext @ [CHR 0x0A]) False
             @ llama_tokenize be ''\<newline>\<newline>### Response:\<newline>\<newline>'' False \<and>
         input_consumed (read_user_input be params st) = int (length (embd_inp st)) \<and>
         drop (nat (input_consumed (read_user_input be params st)))
              (embd_inp (read_user_input be params st)) =
           llama_tokenize be ''\<newline>\<newline>### Instruction:\<newline>\<newline>'' True
             @ llama_tokenize be (utext @ [CHR 0x0A]) False
             @ llama_tokenize be ''\<newline>\<newline>### Response:\<newline>\<newline>'' False"
proof -
  let ?st2 = "emit (Print Outstream ''\<newline>> '')
                ((set_console_state Outstream CONSOLE_STATE_USER_INPUT st)
                   \<lparr>input_consumed := int (length (embd_inp st)),
                    embd_inp := embd_inp st @ inp_pfx be\<rparr>)"
  have "read_lines (instream ?st2) [] [] 0 =
          (utext @ [CHR 0x0A], \<lparr>content = rest, good = True\<rparr>, Suc 0)"
    using read_lines_single [of "instream st" utext rest "[]" "[]" 0] assms(2-5) by simp
  then show ?thesis
    using assms(1) by (simp add: read_user_input_def Let_def inp_pfx_def inp_sfx_def)
qed

theorem instruct_input_wrapping_witness:
  "embd_inp (read_user_input (stub_backend []) (stub_params\<lparr>instruct := True\<rparr>) hello_state) =
     [1, 72] @ llama_tokenize (stub_backend []) ''\<newline>\<newline>### Instruction:\<newline>\<newline>'' True
       @ llama_tokenize (stub_backend []) ''hello\<newline>'' False
       @ llama_tokenize (stub_backend []) ''\<newline>\<newline>### Response:\<newline>\<newline>'' False \<and>
   input_consumed (read_user_input (stub_backend []) (stub_params\<lparr>instruct := True\<rparr>) hello_state) = 2"
  using instruct_input_wrapping [of "stub_params\<lparr>instruct := True\<rparr>" hello_state
      "''hello''" "[]" "stub_backend []"]
  by (simp add: stub_params_def idle_state_def hello_state_def)

subsection \<open>The steps of the loop body\<close>

declare forward_input.simps [simp del]

lemma forward_input_done:
  "\<not> input_consumed st < int (length (embd_inp st)) \<Longrightarrow> forward_input params st = Inr st"
  by (subst forward_input.simps) simp

lemma forward_input_neg:
  "input_consumed st < int (length (embd_inp st)) \<Longrightarrow> input_consumed st < 0 \<Longrightarrow>
   forward_input params st = Inl (IndexOutOfRange, st)"
  by (subst forward_input.simps) simp

lemma forward_input_empty:
  "input_consumed st < int (length (embd_inp st)) \<Longrightarrow> 0 \<le> input_consumed st \<Longrightarrow>
   last_n_tokens st = [] \<Longrightarrow>
   forward_input params st =
     Inl (EraseEmpty, st\<lparr>embd := embd st @ [embd_inp st ! nat (input_consumed st)]\<rparr>)"
  by (subst forward_input.simps) (simp add: Let_def)

lemma forward_input_step:
  "input_consumed st < int (length (embd_inp st)) \<Longrightarrow> 0 \<le> input_consumed st \<Longrightarrow>
   last_n_tokens st = oldest # rest \<Longrightarrow>
   forward_input params st =
     (if n_batch params \<le> int (length (embd st)) + 1 then Inr (push_token rest st)
      else forward_input params (push_token rest st))"
  by (subst forward_input.simps) (simp add: Let_def push_token_def add.commute)

lemma push_token_fields [simp]:
  "trace (push_token rest st) = trace st"
  "embd_inp (push_token rest st) = embd_inp st"
  "is_interacting (push_token rest st) = is_interacting st"
  "remaining_tokens (push_token rest st) = remaining_tokens st"
  "n_past (push_token rest st) = n_past st"
  "input_noecho (push_token rest st) = input_noecho st"
  "instream (push_token rest st) = instream st"
  "con_st (push_token rest st) = con_st st"
  "con_use_color (push_token rest st) = con_use_color st"
  "input_consumed (push_token rest st) = input_consumed st + 1"
  "embd (push_token rest st) = embd st @ [embd_inp st ! nat (input_consumed st)]"
  "last_n_tokens (push_token rest st) = rest @ [embd_inp st ! nat (input_consumed st)]"
  by (simp_all add: push_token_def)

lemma forward_input_frame:
  "same_frame (step_state (forward_input params st)) st"
proof (induction "nat (int (length (embd_inp st)) - input_consumed st)" arbitrary: st rule: less_induct)
  case less
  show ?case
  proof (cases "input_consumed st < int (length (embd_inp st))")
    case False
    then show ?thesis by (simp add: forward_input_done same_frame_def)
  next
    case pending: True
    show ?thesis
    proof (cases "input_consumed st < 0")
      case True
      then show ?thesis using pending by (simp add: forward_input_neg same_frame_def)
    next
      case nonneg: False
      show ?thesis
      proof (cases "last_n_tokens st")
        case Nil
        then show ?thesis using pending nonneg by (simp add: forward_input_empty same_frame_def)
      next
        case (Cons oldest rest)
        have step: "forward_input params st =
            (if n_batch params \<le> int (length (embd st)) + 1 then Inr (push_token rest st)
             else forward_input params (push_token rest st))"
          using pending nonneg Cons by (intro forward_input_step) simp_all
        show ?thesis
        proof (cases "n_batch params \<le> int (length (embd st)) + 1")
          case True
          then show ?thesis using step Cons by (simp add: same_frame_def)
        next
          case False
          have "same_frame (step_state (forward_input params (push_token rest st))) (push_token rest st)"
            using pending nonneg by (intro less) simp
          then show ?thesis using step False Cons by (simp add: same_frame_def)
        qed
      qed
    qed
  qed
qed

lemma forward_input_Inr:
  assumes "forward_input params st = Inr st'" "0 \<le> input_consumed st"
  shows "\<exists>k. embd st' = embd st @ take k (drop (nat (input_consumed st)) (embd_inp st)) \<and>
             last_n_tokens st' =
               drop k (last_n_tokens st @ take k (drop (nat (input_consumed st)) (embd_inp st))) \<and>
             input_consumed st' = input_consumed st + int k \<and>
             (if input_consumed st < int (length (embd_inp st))
              then 0 < k \<and> nat (input_consumed st) + k \<le> length (embd_inp st)
              else k = 0)"
  using assms
proof (induction "nat (int (length (embd_inp st)) - input_consumed st)" arbitrary: st rule: less_induct)
  case less
  show ?case
  proof (cases "input_consumed st < int (length (embd_inp st))")
    case False
    then have "st' = st" using less.prems by (simp add: forward_input_done)
    then show ?thesis using False less.prems by (intro exI [of _ 0]) simp
  next
    case pending: True
    then obtain oldest rest where w: "last_n_tokens st = oldest # rest"
      using less.prems by (cases "last_n_tokens st") (simp_all add: forward_input_empty)
    let ?c = "nat (input_consumed st)"
    let ?tok = "embd_inp st ! ?c"
    have c: "?c < length (embd_inp st)" using pending less.prems by simp
    have dr: "drop ?c (embd_inp st) = ?tok # drop (Suc ?c) (embd_inp st)"
      using c by (simp add: Cons_nth_drop_Suc)
    have step: "forward_input params st =
        (if n_batch params \<le> int (length (embd st)) + 1 then Inr (push_token rest st)
         else forward_input params (push_token rest st))"
      using pending less.prems w by (intro forward_input_step) simp_all
    show ?thesis
    proof (cases "n_batch params \<le> int (length (embd st)) + 1")
      case True
      then have "st' = push_token rest st" using step less.prems by simp
      then show ?thesis using pending c w dr by (intro exI [of _ 1]) simp
    next
      case False
      then have r: "forward_input params (push_token rest st) = Inr st'"
        using step less.prems by simp
      have n: "nat (input_consumed st + 1) = Suc ?c" using less.prems by simp
      obtain k where k:
        "embd st' = embd (push_token rest st) @ take k (drop (Suc ?c) (embd_inp st))"
        "last_n_tokens st' = drop k (last_n_tokens (push_token rest st) @ take k (drop (Suc ?c) (embd_inp st)))"
        "input_consumed st' = input_consumed st + 1 + int k"
        "Suc ?c + k \<le> length (embd_inp st)"
        using less.hyps [of "push_token rest st", OF _ r] pending less.prems(2) c
        by (auto simp: n split: if_splits)
      show ?thesis
        using k pending w by (intro exI [of _ "Suc k"]) (simp add: dr)
    qed
  qed
qed

lemma n_samples_prints [simp]: "n_samples (map (\<lambda>x. Print k (f x)) xs) = 0"
  by (induction xs) simp_all

lemma n_evals_prints [simp]: "n_evals (map (\<lambda>x. Print k (f x)) xs) = 0"
  by (induction xs) simp_all

lemma n_getlines_prints [simp]: "n_getlines (map (\<lambda>x. Print k (f x)) xs) = 0"
  by (induction xs) simp_all

lemma n_samples_getlines [simp]: "n_samples (replicate k Getline) = 0"
  by (induction k) simp_all

lemma n_evals_getlines [simp]: "n_evals (replicate k Getline) = 0"
  by (induction k) simp_all

lemma display_fields [simp]:
  "embd (display be st) = embd st"
  "embd_inp (display be st) = embd_inp st"
  "last_n_tokens (display be st) = last_n_tokens st"
  "input_consumed (display be st) = input_consumed st"
  "is_interacting (display be st) = is_interacting st"
  "remaining_tokens (display be st) = remaining_tokens st"
  "instream (display be st) = instream st"
  "n_past (display be st) = n_past st"
  "n_samples (trace (display be st)) = n_samples (trace st)"
  "n_evals (trace (display be st)) = n_evals (trace st)"
  "n_getlines (trace (display be st)) = n_getlines (trace st)"
  by (simp_all add: display_def Let_def)

lemma read_user_input_fields [simp]:
  "embd (read_user_input be params st) = embd st"
  "last_n_tokens (read_user_input be params st) = last_n_tokens st"
  "is_interacting (read_user_input be params st) = is_interacting st"
  "n_past (read_user_input be params st) = n_past st"
  "n_samples (trace (read_user_input be params st)) = n_samples (trace st)"
  "n_evals (trace (read_user_input be params st)) = n_evals (trace st)"
  by (simp_all add: read_user_input_def Let_def split: prod.split)

lemma read_user_input_cursor:
  "0 \<le> input_consumed st \<and> input_consumed st \<le> int (length (embd_inp st)) \<Longrightarrow>
   0 \<le> input_consumed (read_user_input be params st) \<and>
   input_consumed (read_user_input be params st) \<le> int (length (embd_inp (read_user_input be params st)))"
  by (simp add: read_user_input_def Let_def split: prod.split)

lemma check_interaction_fields [simp]:
  "embd (check_interaction be params st) = embd st"
  "last_n_tokens (check_interaction be params st) = last_n_tokens st"
  "n_past (check_interaction be params st) = n_past st"
  "n_samples (trace (check_interaction be params st)) = n_samples (trace st)"
  "n_evals (trace (check_interaction be params st)) = n_evals (trace st)"
  by (simp_all add: check_interaction_def Let_def)

lemma check_interaction_cursor:
  "0 \<le> input_consumed st \<and> input_consumed st \<le> int (length (embd_inp st)) \<Longrightarrow>
   0 \<le> input_consumed (check_interaction be params st) \<and>
   input_consumed (check_interaction be params st)
     \<le> int (length (embd_inp (check_interaction be params st)))"
  using read_user_input_cursor [of "st\<lparr>is_interacting := True\<rparr>" be params]
  by (auto simp add: check_interaction_def Let_def)

lemma refill_budget_fields [simp]:
  "embd (refill_budget params st) = embd st"
  "embd_inp (refill_budget params st) = embd_inp st"
  "last_n_tokens (refill_budget params st) = last_n_tokens st"
  "input_consumed (refill_budget params st) = input_consumed st"
  "n_past (refill_budget params st) = n_past st"
  "instream (refill_budget params st) = instream st"
  "trace (refill_budget params st) = trace st"
  by (simp_all add: refill_budget_def)

lemma check_eos_fields [simp]:
  "embd (outcome_state (check_eos be params st)) = embd st"
  "embd_inp (outcome_state (check_eos be params st)) = embd_inp st"
  "last_n_tokens (outcome_state (check_eos be params st)) = last_n_tokens st"
  "input_consumed (outcome_state (check_eos be params st)) = input_consumed st"
  "n_past (outcome_state (check_eos be params st)) = n_past st"
  "n_samples (trace (outcome_state (check_eos be params st))) = n_samples (trace st)"
  "n_evals (trace (outcome_state (check_eos be params st))) = n_evals (trace st)"
  "n_getlines (trace (outcome_state (check_eos be params st))) = n_getlines (trace st)"
  by (simp_all add: check_eos_def)

lemma check_eos_not_BackEmpty: "embd st \<noteq> [] \<Longrightarrow> check_eos be params st \<noteq> Abort f x"
  by (simp add: check_eos_def)

lemma after_eval_fields [simp]:
  "embd (after_eval st) = []"
  "embd_inp (after_eval st) = embd_inp st"
  "last_n_tokens (after_eval st) = last_n_tokens st"
  "input_consumed (after_eval st) = input_consumed st"
  "is_interacting (after_eval st) = is_interacting st"
  "remaining_tokens (after_eval st) = remaining_tokens st"
  "instream (after_eval st) = instream st"
  "n_samples (trace (after_eval st)) = n_samples (trace st)"
  "n_getlines (trace (after_eval st)) = n_getlines (trace st)"
  by (simp_all add: after_eval_def)

lemma generate_unfold:
  "generate be params st =
     (if embd st \<noteq> [] \<and> llama_eval_fails be (n_evals (trace st)) (embd st) (n_past st)
      then Return 1 (emit (Print Errstream ''run : failed to eval\<newline>'')
                      (emit (Eval (embd st) (n_past st)) st))
      else case (if int (length (embd_inp st)) \<le> input_consumed st
                 then sample_next be params (after_eval st)
                 else forward_input params (after_eval st)) of
             Inl (f, s) \<Rightarrow> Abort f s
           | Inr st3 \<Rightarrow> Next (check_interaction be params (display be st3)))"
  by (simp add: generate_def Let_def after_eval_def)

lemma sample_next_Inr:
  assumes "sample_next be params st = Inr s"
  shows "last_n_tokens st \<noteq> [] \<and>
         embd s = embd st @ [llama_sample be (n_samples (trace st)) (last_n_tokens st)] \<and>
         last_n_tokens s =
           tl (last_n_tokens st) @ [llama_sample be (n_samples (trace st)) (last_n_tokens st)] \<and>
         n_samples (trace s) = Suc (n_samples (trace st)) \<and>
         n_getlines (trace s) = n_getlines (trace st) \<and>
         embd_inp s = embd_inp st \<and> input_consumed s = input_consumed st \<and>
         is_interacting s = is_interacting st \<and>
         remaining_tokens s = remaining_tokens st - 1"
  using assms
  by (auto simp add: sample_next_def Let_def split: if_splits list.splits)

lemma sample_next_frame:
  "length (last_n_tokens (step_state (sample_next be params st))) = length (last_n_tokens st) \<and>
   embd_inp (step_state (sample_next be params st)) = embd_inp st \<and>
   input_consumed (step_state (sample_next be params st)) = input_consumed st"
  by (auto simp add: sample_next_def Let_def split: list.splits)

lemma generate_window_length:
  "length (last_n_tokens (outcome_state (generate be params st))) = length (last_n_tokens st)"
proof -
  have f: "length (last_n_tokens (step_state (forward_input params (after_eval st))))
             = length (last_n_tokens st)"
    using forward_input_frame [of params "after_eval st"] by (simp add: same_frame_def)
  have s: "length (last_n_tokens (step_state (sample_next be params (after_eval st))))
             = length (last_n_tokens st)"
    using sample_next_frame [of be params "after_eval st"] by simp
  show ?thesis
    using f s unfolding generate_unfold
    by (auto split: sum.splits prod.splits)
qed

lemma generate_no_sample:
  assumes "input_consumed st < int (length (embd_inp st))"
  shows "n_samples (trace (outcome_state (generate be params st))) = n_samples (trace st)"
proof -
  have f: "n_samples (trace (step_state (forward_input params (after_eval st))))
             = n_samples (trace st)"
    using forward_input_frame [of params "after_eval st"] by (simp add: same_frame_def)
  show ?thesis
    using f assms unfolding generate_unfold
    by (auto split: sum.splits prod.splits)
qed

lemma generate_Next_drained:
  assumes "generate be params st = Next s" "int (length (embd_inp st)) \<le> input_consumed st"
  shows "last_n_tokens st \<noteq> [] \<and>
         embd s = [llama_sample be (n_samples (trace st)) (last_n_tokens st)] \<and>
         last_n_tokens s =
           tl (last_n_tokens st) @ [llama_sample be (n_samples (trace st)) (last_n_tokens st)] \<and>
         n_samples (trace s) = Suc (n_samples (trace st))"
proof -
  obtain st3 where a: "sample_next be params (after_eval st) = Inr st3"
    and b: "s = check_interaction be params (display be st3)"
    using assms unfolding generate_unfold by (auto split: if_splits sum.splits prod.splits)
  show ?thesis using sample_next_Inr [OF a] b by simp
qed

lemma generate_Next_pending:
  assumes "generate be params st = Next s" "input_consumed st < int (length (embd_inp st))"
  shows "\<exists>k>0. 0 \<le> input_consumed st \<and> nat (input_consumed st) + k \<le> length (embd_inp st) \<and>
           embd s = take k (drop (nat (input_consumed st)) (embd_inp st)) \<and>
           last_n_tokens s = drop k (last_n_tokens st @ embd s) \<and>
           n_samples (trace s) = n_samples (trace st)"
proof -
  obtain st3 where a: "forward_input params (after_eval st) = Inr st3"
    and b: "s = check_interaction be params (display be st3)"
    using assms unfolding generate_unfold by (auto split: if_splits sum.splits prod.splits)
  have c: "0 \<le> input_consumed st"
    using a assms(2) forward_input_neg [of "after_eval st" params] by (cases "input_consumed st < 0") auto
  have t: "n_samples (trace st3) = n_samples (trace st)"
    using forward_input_frame [of params "after_eval st"] a by (simp add: same_frame_def)
  from forward_input_Inr [OF a] c assms(2) obtain k where
    "embd st3 = take k (drop (nat (input_consumed st)) (embd_inp st))"
    "last_n_tokens st3 = drop k (last_n_tokens st @ take k (drop (nat (input_consumed st)) (embd_inp st)))"
    "0 < k" "nat (input_consumed st) + k \<le> length (embd_inp st)"
    by auto
  then show ?thesis using b c t by (intro exI [of _ k]) simp
qed

lemma sample_next_samples:
  "n_samples (trace (step_state (sample_next be params st))) \<le> Suc (n_samples (trace st))"
  by (auto simp add: sample_next_def Let_def split: list.splits)

lemma generate_samples_le:
  "n_samples (trace (outcome_state (generate be params st))) \<le> Suc (n_samples (trace st))"
proof -
  have f: "n_samples (trace (step_state (forward_input params (after_eval st))))
             = n_samples (trace st)"
    using forward_input_frame [of params "after_eval st"] by (simp add: same_frame_def)
  have s: "n_samples (trace (step_state (sample_next be params (after_eval st))))
             \<le> Suc (n_samples (trace st))"
    using sample_next_samples [of be params "after_eval st"] by simp
  show ?thesis
    using f s unfolding generate_unfold
    by (auto split: sum.splits prod.splits)
qed

lemma generate_cursor_ok:
  assumes "cursor_ok st" "generate be params st = Next s"
  shows "cursor_ok s"
proof (cases "int (length (embd_inp st)) \<le> input_consumed st")
  case True
  then obtain st3 where a: "sample_next be params (after_eval st) = Inr st3"
    and b: "s = check_interaction be params (display be st3)"
    using assms(2) unfolding generate_unfold by (auto split: if_splits sum.splits prod.splits)
  have "embd_inp st3 = embd_inp st" "input_consumed st3 = input_consumed st"
    using sample_next_Inr [OF a] by simp_all
  then show ?thesis
    using assms(1) b check_interaction_cursor [of "display be st3" be params]
    by (simp add: cursor_ok_def)
next
  case False
  then obtain st3 where a: "forward_input params (after_eval st) = Inr st3"
    and b: "s = check_interaction be params (display be st3)"
    using assms(2) unfolding generate_unfold by (auto split: if_splits sum.splits prod.splits)
  have e: "embd_inp st3 = embd_inp st"
    using forward_input_frame [of params "after_eval st"] a by (simp add: same_frame_def)
  from forward_input_Inr [OF a] assms(1) False obtain k where
    "input_consumed st3 = input_consumed st + int k"
    "nat (input_consumed st) + k \<le> length (embd_inp st)"
    by (auto simp: cursor_ok_def)
  then have "0 \<le> input_consumed st3 \<and> input_consumed st3 \<le> int (length (embd_inp st3))"
    using assms(1) e by (simp add: cursor_ok_def)
  then show ?thesis
    using b check_interaction_cursor [of "display be st3" be params]
    by (simp add: cursor_ok_def)
qed

lemma iteration_Next:
  "iteration be params st = Next s' \<Longrightarrow>
   \<exists>s. generate be params st = Next s \<and> check_eos be params s = Next s'"
  by (cases "generate be params st") (simp_all add: iteration_def)

lemma iteration_Break:
  "iteration be params st = Break s' \<Longrightarrow>
   \<exists>s. generate be params st = Next s \<and> check_eos be params s = Break s'"
  using generate_unfold [of be params st]
  by (cases "generate be params st") (auto simp add: iteration_def split: if_splits sum.splits prod.splits)

lemma iteration_fields:
  "last_n_tokens (outcome_state (iteration be params st)) =
     last_n_tokens (outcome_state (generate be params st))"
  "embd (outcome_state (iteration be params st)) = embd (outcome_state (generate be params st))"
  "embd_inp (outcome_state (iteration be params st)) =
     embd_inp (outcome_state (generate be params st))"
  "input_consumed (outcome_state (iteration be params st)) =
     input_consumed (outcome_state (generate be params st))"
  "n_samples (trace (outcome_state (iteration be params st))) =
     n_samples (trace (outcome_state (generate be params st)))"
  by (cases "generate be params st"; simp add: iteration_def)+

lemma iteration_cursor_ok:
  assumes "cursor_ok st" "iteration be params st = Next s'"
  shows "cursor_ok s'"
proof -
  obtain s where g: "generate be params st = Next s" and e: "check_eos be params s = Next s'"
    using iteration_Next [OF assms(2)] by blast
  have "cursor_ok s" using assms(1) g by (rule generate_cursor_ok)
  moreover have "embd_inp s' = embd_inp s" "input_consumed s' = input_consumed s"
    using check_eos_fields(2,4) [of be params s] e by simp_all
  ultimately show ?thesis by (simp add: cursor_ok_def)
qed

lemma loop_state_invariant:
  assumes step: "\<And>s s'. P s \<Longrightarrow> iteration be params s = Next s' \<Longrightarrow> P s'"
    and "P s0" and "loop_state be params n s0 = Some st"
  shows "P st"
  using assms(2,3)
proof (induction n arbitrary: s0)
  case 0
  then show ?case by simp
next
  case (Suc n)
  from Suc.prems(2) obtain s1 where "iteration be params s0 = Next s1"
    and "loop_state be params n s1 = Some st"
    by (auto split: if_splits outcome.splits)
  then show ?case using Suc.IH [of s1] step [OF Suc.prems(1)] by blast
qed

lemma apply_modes_fields [simp]:
  "repeat_last_n (apply_modes p) = repeat_last_n p"
  "n_predict (apply_modes p) = n_predict p"
  "n_batch (apply_modes p) = n_batch p"
  "use_color (apply_modes p) = use_color p"
  "ignore_eos (apply_modes p) = ignore_eos p"
  "perplexity (apply_modes p) = perplexity p"
  "instruct (apply_modes p) = instruct p"
  by (simp_all add: apply_modes_def Let_def)

lemma prepare_Inr:
  assumes "prepare be params0 ins c0 i0 = Inr (params, s0)"
  shows "0 \<le> repeat_last_n params0 \<and> repeat_last_n params = repeat_last_n params0 \<and>
         last_n_tokens s0 = replicate (nat (repeat_last_n params0)) 0 \<and>
         cursor_ok s0 \<and> embd s0 = [] \<and> n_samples (trace s0) = 0 \<and>
         n_getlines (trace s0) = 0 \<and> input_consumed s0 = 0 \<and>
         remaining_tokens s0 = n_predict params"
  using assms
  by (auto simp add: prepare_def Let_def cursor_ok_def split: if_splits)

lemma loop_state_cursor_ok:
  assumes "prepare be params0 ins c0 i0 = Inr (params, s0)"
    and "loop_state be params n s0 = Some st"
  shows "cursor_ok st"
proof -
  have "cursor_ok s0" using prepare_Inr [OF assms(1)] by simp
  then show ?thesis
    using assms(2) iteration_cursor_ok loop_state_invariant [where P = cursor_ok] by blast
qed

lemma loop_state_window_length:
  assumes "loop_state be params n s0 = Some st"
  shows "length (last_n_tokens st) = length (last_n_tokens s0)"
proof -
  have "\<And>s s'. length (last_n_tokens s) = length (last_n_tokens s0) \<Longrightarrow>
          iteration be params s = Next s' \<Longrightarrow> length (last_n_tokens s') = length (last_n_tokens s0)"
    using iteration_fields(1) generate_window_length by (metis outcome_state.simps(1))
  then show ?thesis
    using assms loop_state_invariant [where P = "\<lambda>s. length (last_n_tokens s) = length (last_n_tokens s0)"]
    by blast
qed

subsection \<open>A session on the prompt \<open>Hi\<close>\<close>

lemma forward_input_step':
  "input_consumed st < int (length (embd_inp st)) \<Longrightarrow> 0 \<le> input_consumed st \<Longrightarrow>
   last_n_tokens st \<noteq> [] \<Longrightarrow>
   forward_input params st =
     (if n_batch params \<le> int (length (embd st)) + 1 then Inr (push_token (tl (last_n_tokens st)) st)
      else forward_input params (push_token (tl (last_n_tokens st)) st))"
  using forward_input_step [of st "hd (last_n_tokens st)" "tl (last_n_tokens st)" params]
  by simp

lemmas run_defs = prepare_def apply_modes_def stub_backend_def stub_params_def Let_def
  set_console_state_def emit_def generate_def iteration_def check_eos_def refill_budget_def
  check_interaction_def display_def sample_next_def push_token_def
  forward_input_step' forward_input_done

lemma hi_prepare:
  "prepare (stub_backend []) stub_params empty_input CONSOLE_STATE_DEFAULT False
     = Inr (hi_params, hi_state0)"
  by (simp add: run_defs hi_params_def hi_state0_def eval_nat_numeral)

lemma hi_generate0: "generate (stub_backend []) hi_params hi_state0 = Next hi_state1"
  by (simp add: run_defs hi_params_def hi_state0_def hi_state1_def char_of_def)

lemma hi_iteration0: "iteration (stub_backend []) hi_params hi_state0 = Next hi_state1"
  by (simp add: hi_generate0 iteration_def)
     (simp add: run_defs hi_params_def hi_state0_def hi_state1_def)

lemma hi_iteration1: "iteration (stub_backend []) hi_params hi_state1 = Next hi_state2"
  by (simp add: run_defs hi_params_def hi_state0_def hi_state1_def hi_state2_def char_of_def)

lemma hi_loop_state1: "loop_state (stub_backend []) hi_params 1 hi_state0 = Some hi_state1"
  using hi_iteration0 by (simp add: hi_state0_def)

lemma hi_loop_state2: "loop_state (stub_backend []) hi_params 2 hi_state0 = Some hi_state2"
proof -
  have "loop_state (stub_backend []) hi_params (Suc (Suc 0)) hi_state0 = Some hi_state2"
    using hi_iteration0 hi_iteration1 by (simp add: hi_state0_def hi_state1_def)
  then show ?thesis by (simp add: numeral_2_eq_2)
qed

subsection \<open>The repetition window\<close>

text \<open>
  Claim C2. The repetition window starts as \<open>repeat_last_n\<close> copies of the token 0. At the
  head of every iteration that the session reaches, and in the state in which that
  iteration ends (however it ends), the window has \<open>repeat_last_n\<close> entries. An iteration
  that runs to the end of the loop body with the batch \<open>embd\<close> leaves the old window
  followed by the batch, without its oldest entries, as many as the batch has tokens:
  every forwarded or sampled token evicts one entry and is appended. (A window of
  capacity 0 makes the first \<open>erase\<close> undefined behaviour; the model stops there with
  \<open>EraseEmpty\<close>, so no later state exists.)
\<close>

theorem repetition_window_constant_length:
  assumes "prepare be params0 ins c0 i0 = Inr (params, s0)"
    and "loop_state be params n s0 = Some st"
  shows "last_n_tokens s0 = replicate (nat (repeat_last_n params0)) 0 \<and>
         int (length (last_n_tokens st)) = repeat_last_n params0 \<and>
         int (length (last_n_tokens (outcome_state (iteration be params st)))) = repeat_last_n params0 \<and>
         (\<forall>s. iteration be params st = Next s \<longrightarrow>
              last_n_tokens s = drop (length (embd s)) (last_n_tokens st @ embd s))"
proof -
  note p = prepare_Inr [OF assms(1)]
  have len: "length (last_n_tokens st) = nat (repeat_last_n params0)"
    using loop_state_window_length [OF assms(2)] p by simp
  have after: "length (last_n_tokens (outcome_state (iteration be params st)))
                 = length (last_n_tokens st)"
    by (simp add: iteration_fields(1) generate_window_length)
  have content: "last_n_tokens s = drop (length (embd s)) (last_n_tokens st @ embd s)"
    if it: "iteration be params st = Next s" for s
  proof -
    obtain g where g: "generate be params st = Next g" and e: "check_eos be params g = Next s"
      using iteration_Next [OF it] by blast
    have eq: "last_n_tokens s = last_n_tokens g" "embd s = embd g"
      using check_eos_fields(1,3) [of be params g] e by simp_all
    show ?thesis
    proof (cases "input_consumed st < int (length (embd_inp st))")
      case True
      then show ?thesis using generate_Next_pending [OF g] eq by auto
    next
      case False
      then have d: "int (length (embd_inp st)) \<le> input_consumed st" by simp
      show ?thesis
        using generate_Next_drained [OF g d] eq by (cases "last_n_tokens st") simp_all
    qed
  qed
  show ?thesis using p len after content by simp
qed

theorem repetition_window_constant_length_witness:
  "prepare (stub_backend []) stub_params empty_input CONSOLE_STATE_DEFAULT False
     = Inr (hi_params, hi_state0) \<and>
   loop_state (stub_backend []) hi_params 1 hi_state0 = Some hi_state1 \<and>
   last_n_tokens hi_state0 = [0, 0, 0, 0] \<and>
   length (last_n_tokens hi_state1) = 4 \<and>
   iteration (stub_backend []) hi_params hi_state1 = Next hi_state2 \<and>
   last_n_tokens hi_state2 = drop 1 ([1, 32, 72, 105] @ [97])"
  using repetition_window_constant_length [OF hi_prepare hi_loop_state1] hi_iteration1
    hi_prepare hi_loop_state1
  by (simp add: stub_params_def hi_state0_def hi_state1_def hi_state2_def)

subsection \<open>Pending input is forwarded before anything is sampled\<close>

text \<open>
  Claim C1. At the head of every iteration that the session reaches, the cursor is at most
  the length of the pending queue. When it is less, the iteration does not call the
  sampler, however it ends, and if it runs to the end of the loop body its batch is a
  non-empty run of pending tokens taken from the queue at the cursor. When the cursor
  is not less, it equals the length of the queue; the iteration then calls the sampler
  at most once, and exactly once if it reaches the end of the loop body or the
  \<open>break\<close>, the batch being the sampled token.
\<close>

theorem pending_input_preempts_sampling:
  assumes "prepare be params0 ins c0 i0 = Inr (params, s0)"
    and "loop_state be params n s0 = Some st"
  shows "if input_consumed st < int (length (embd_inp st))
         then n_samples (trace (outcome_state (iteration be params st))) = n_samples (trace st) \<and>
              (\<forall>s. iteration be params st = Next s \<or> iteration be params st = Break s \<longrightarrow>
                 (\<exists>k>0. embd s = take k (drop (nat (input_consumed st)) (embd_inp st))))
         else input_consumed st = int (length (embd_inp st)) \<and>
              n_samples (trace (outcome_state (iteration be params st))) \<le> Suc (n_samples (trace st)) \<and>
              (\<forall>s. iteration be params st = Next s \<or> iteration be params st = Break s \<longrightarrow>
                 n_samples (trace s) = Suc (n_samples (trace st)) \<and>
                 embd s = [llama_sample be (n_samples (trace st)) (last_n_tokens st)])"
proof -
  have ok: "cursor_ok st" using assms by (rule loop_state_cursor_ok)
  have reach: "\<exists>g. generate be params st = Next g \<and> embd s = embd g \<and>
                    n_samples (trace s) = n_samples (trace g)"
    if it: "iteration be params st = Next s \<or> iteration be params st = Break s" for s
  proof -
    from it obtain g where g: "generate be params st = Next g"
      and e: "check_eos be params g = Next s \<or> check_eos be params g = Break s"
      using iteration_Next iteration_Break by blast
    have os: "outcome_state (check_eos be params g) = s" using e by auto
    have "embd s = embd g \<and> n_samples (trace s) = n_samples (trace g)"
      unfolding os [symmetric] by simp
    then show ?thesis using g by blast
  qed
  show ?thesis
  proof (cases "input_consumed st < int (length (embd_inp st))")
    case True
    have "n_samples (trace (outcome_state (iteration be params st))) = n_samples (trace st)"
      using generate_no_sample [OF True] by (simp add: iteration_fields(5))
    moreover have "\<exists>k>0. embd s = take k (drop (nat (input_consumed st)) (embd_inp st))"
      if it: "iteration be params st = Next s \<or> iteration be params st = Break s" for s
    proof -
      obtain g where g: "generate be params st = Next g" and e: "embd s = embd g"
        using reach [OF it] by blast
      show ?thesis using generate_Next_pending [OF g True] e by auto
    qed
    ultimately show ?thesis using True by simp
  next
    case False
    then have d: "int (length (embd_inp st)) \<le> input_consumed st" by simp
    have eq: "input_consumed st = int (length (embd_inp st))"
      using ok d by (simp add: cursor_ok_def)
    have le: "n_samples (trace (outcome_state (iteration be params st))) \<le> Suc (n_samples (trace st))"
      using generate_samples_le by (simp add: iteration_fields(5))
    have "n_samples (trace s) = Suc (n_samples (trace st)) \<and>
          embd s = [llama_sample be (n_samples (trace st)) (last_n_tokens st)]"
      if it: "iteration be params st = Next s \<or> iteration be params st = Break s" for s
    proof -
      obtain g where g: "generate be params st = Next g" and e: "embd s = embd g"
        "n_samples (trace s) = n_samples (trace g)"
        using reach [OF it] by blast
      show ?thesis using generate_Next_drained [OF g d] e by simp
    qed
    then show ?thesis using False eq le by simp
  qed
qed

theorem pending_input_preempts_sampling_witness:
  "input_consumed hi_state0 < int (length (embd_inp hi_state0)) \<and>
   iteration (stub_backend []) hi_params hi_state0 = Next hi_state1 \<and>
   n_samples (trace hi_state1) = n_samples (trace hi_state0) \<and>
   embd hi_state1 = take 4 (drop 0 (embd_inp hi_state0)) \<and>
   input_consumed hi_state1 = int (length (embd_inp hi_state1)) \<and>
   iteration (stub_backend []) hi_params hi_state1 = Next hi_state2 \<and>
   n_samples (trace hi_state2) = Suc (n_samples (trace hi_state1)) \<and>
   embd hi_state2 = [97]"
  using pending_input_preempts_sampling [OF hi_prepare, of 0 hi_state0]
    pending_input_preempts_sampling [OF hi_prepare hi_loop_state1]
    hi_iteration0 hi_iteration1
  by (simp add: hi_state0_def hi_state1_def hi_state2_def)

subsection \<open>The batch at the end-of-text check\<close>

lemma forward_input_failures:
  "forward_input params st = Inl (f, s) \<Longrightarrow> f \<noteq> BackEmpty"
proof (induction "nat (int (length (embd_inp st)) - input_consumed st)" arbitrary: st rule: less_induct)
  case less
  show ?case
  proof (cases "input_consumed st < int (length (embd_inp st))")
    case False
    then show ?thesis using less.prems by (simp add: forward_input_done)
  next
    case pending: True
    show ?thesis
    proof (cases "input_consumed st < 0")
      case True
      then show ?thesis using pending less.prems by (simp add: forward_input_neg)
    next
      case nonneg: False
      show ?thesis
      proof (cases "last_n_tokens st")
        case Nil
        then show ?thesis using pending nonneg less.prems by (simp add: forward_input_empty)
      next
        case (Cons oldest rest)
        have step: "forward_input params st =
            (if n_batch params \<le> int (length (embd st)) + 1 then Inr (push_token rest st)
             else forward_input params (push_token rest st))"
          using pending nonneg Cons by (intro forward_input_step) simp_all
        then have "forward_input params (push_token rest st) = Inl (f, s)"
          using less.prems by (simp split: if_splits)
        then show ?thesis using pending nonneg by (intro less.hyps [of "push_token rest st"]) simp_all
      qed
    qed
  qed
qed

lemma sample_next_failures: "sample_next be params st = Inl (f, s) \<Longrightarrow> f \<noteq> BackEmpty"
  by (auto simp add: sample_next_def Let_def split: if_splits list.splits)

lemma generate_failures: "generate be params st \<noteq> Abort BackEmpty x"
  using forward_input_failures [of params "after_eval st" BackEmpty x]
    sample_next_failures [of be params "after_eval st" BackEmpty x]
  unfolding generate_unfold
  by (auto split: sum.splits prod.splits)

text \<open>
  Claim C10. No iteration ends in the failure \<open>BackEmpty\<close>: whenever control reaches the
  end-of-text check of line 337, the batch \<open>embd\<close> is not empty. It holds exactly the one
  sampled token when the queue was drained at the head of the iteration, and at least
  one forwarded token otherwise. So \<open>embd.back()\<close> is defined there.
\<close>

theorem batch_nonempty_at_eos_check:
  "(\<forall>x. iteration be params st \<noteq> Abort BackEmpty x) \<and>
   (\<forall>s. generate be params st = Next s \<longrightarrow>
      embd s \<noteq> [] \<and>
      (if int (length (embd_inp st)) \<le> input_consumed st
       then embd s = [llama_sample be (n_samples (trace st)) (last_n_tokens st)]
       else (\<exists>k>0. embd s = take k (drop (nat (input_consumed st)) (embd_inp st)) \<and>
               length (embd s) = k)) \<and>
      (\<forall>x. check_eos be params s \<noteq> Abort BackEmpty x))"
proof -
  have batch: "embd s \<noteq> [] \<and>
      (if int (length (embd_inp st)) \<le> input_consumed st
       then embd s = [llama_sample be (n_samples (trace st)) (last_n_tokens st)]
       else (\<exists>k>0. embd s = take k (drop (nat (input_consumed st)) (embd_inp st)) \<and>
               length (embd s) = k))"
    if g: "generate be params st = Next s" for s
  proof (cases "int (length (embd_inp st)) \<le> input_consumed st")
    case True
    then show ?thesis using generate_Next_drained [OF g True] by simp
  next
    case False
    then have p: "input_consumed st < int (length (embd_inp st))" by simp
    obtain k where k: "0 < k" "nat (input_consumed st) + k \<le> length (embd_inp st)"
      "embd s = take k (drop (nat (input_consumed st)) (embd_inp st))"
      using generate_Next_pending [OF g p] by blast
    then have l: "length (embd s) = k" by simp
    then have "embd s \<noteq> []" using k(1) by auto
    then show ?thesis using k l False by auto
  qed
  have eos: "check_eos be params s \<noteq> Abort BackEmpty x"
    if g: "generate be params st = Next s" for s x
    using batch [OF g] check_eos_not_BackEmpty [of s be params BackEmpty x] by simp
  have "iteration be params st \<noteq> Abort BackEmpty x" for x
  proof (cases "generate be params st")
    case (Next s)
    then show ?thesis using eos [OF Next] by (simp add: iteration_def)
  next
    case (Break s)
    then show ?thesis by (simp add: iteration_def)
  next
    case (Return c s)
    then show ?thesis by (simp add: iteration_def)
  next
    case (Abort f s)
    then show ?thesis using generate_failures [of be params st x] by (auto simp add: iteration_def)
  qed
  then show ?thesis using batch eos by blast
qed

theorem batch_nonempty_at_eos_check_witness:
  "generate (stub_backend []) hi_params hi_state0 = Next hi_state1 \<and>
   embd hi_state1 = [1, 32, 72, 105] \<and>
   iteration (stub_backend []) hi_params hi_state0 = Next hi_state1"
  using batch_nonempty_at_eos_check [of "stub_backend []" hi_params hi_state0]
    hi_generate0 hi_iteration0
  by (simp add: hi_state0_def hi_state1_def)

subsection \<open>Failure of the evaluator\<close>

lemma main_loop_loop_state:
  "loop_state be params n s0 = Some st \<Longrightarrow>
   main_loop be params (n + k) s0 = main_loop be params k st"
proof (induction n arbitrary: s0)
  case 0
  then show ?case by simp
next
  case (Suc n)
  from Suc.prems obtain s1 where g: "remaining_tokens s0 > 0 \<or> interactive params"
    and i: "iteration be params s0 = Next s1"
    and l: "loop_state be params n s1 = Some st"
    by (auto split: if_splits outcome.splits)
  show ?case using g i Suc.IH [OF l] by simp
qed

lemma iteration_eval_fails:
  assumes "embd st \<noteq> []" "llama_eval_fails be (n_evals (trace st)) (embd st) (n_past st)"
  shows "iteration be params st =
           Return 1 (st\<lparr>trace := trace st @ [Eval (embd st) (n_past st),
                                             Print Errstream ''run : failed to eval\<newline>'']\<rparr>)"
  using assms by (simp add: iteration_def generate_unfold emit_def)

text \<open>
  Claim C7. When the session has reached the head of an iteration that is entered with a
  non-empty batch, and the evaluator reports failure for this batch, \<open>run\<close> returns 1 for
  every bound on the number of iterations that lets it get there. In the final state
  nothing has changed but the trace, which has two more entries: the failing call and
  the message \<open>"run : failed to eval\n"\<close> on \<open>errstream\<close>. So the batch is not submitted
  again, and no evaluation, sample or read of input follows. (The result of the call of
  line 111, before the loop, is not looked at by the code; the claim is about the
  submissions of the loop.)
\<close>

theorem eval_failure_is_fatal:
  assumes "prepare be params0 ins c0 i0 = Inr (params, s0)"
    and "loop_state be params n s0 = Some st"
    and "remaining_tokens st > 0 \<or> interactive params"
    and "embd st \<noteq> []"
    and "llama_eval_fails be (n_evals (trace st)) (embd st) (n_past st)"
  shows "run be params0 ins c0 i0 (n + Suc k) =
           Some (Returned 1
             (st\<lparr>trace := trace st @ [Eval (embd st) (n_past st),
                                      Print Errstream ''run : failed to eval\<newline>'']\<rparr>))"
proof -
  have "run be params0 ins c0 i0 (n + Suc k) = main_loop be params (n + Suc k) s0"
    using assms(1) by (simp add: run_def)
  also have "\<dots> = main_loop be params (Suc k) st"
    using assms(2) by (rule main_loop_loop_state)
  also have "\<dots> = Some (Returned 1
             (st\<lparr>trace := trace st @ [Eval (embd st) (n_past st),
                                      Print Errstream ''run : failed to eval\<newline>'']\<rparr>))"
    using assms(3) iteration_eval_fails [OF assms(4,5)] by simp
  finally show ?thesis .
qed

lemma failing_prepare:
  "prepare failing_backend stub_params empty_input CONSOLE_STATE_DEFAULT False
     = Inr (hi_params, hi_state0)"
  by (simp add: run_defs failing_backend_def hi_params_def hi_state0_def eval_nat_numeral)

lemma failing_iteration0: "iteration failing_backend hi_params hi_state0 = Next hi_state1"
  by (simp add: run_defs failing_backend_def hi_params_def hi_state0_def hi_state1_def char_of_def)

lemma failing_loop_state1: "loop_state failing_backend hi_params 1 hi_state0 = Some hi_state1"
  using failing_iteration0 by (simp add: hi_state0_def)

theorem eval_failure_is_fatal_witness:
  "remaining_tokens hi_state1 > 0 \<and> embd hi_state1 = [1, 32, 72, 105] \<and>
   llama_eval_fails failing_backend (n_evals (trace hi_state1)) (embd hi_state1) (n_past hi_state1) \<and>
   run failing_backend stub_params empty_input CONSOLE_STATE_DEFAULT False 2 =
     Some (Returned 1
       (hi_state1\<lparr>trace := trace hi_state1 @ [Eval [1, 32, 72, 105] 0,
                                              Print Errstream ''run : failed to eval\<newline>'']\<rparr>))"
proof -
  have a: "remaining_tokens hi_state1 > 0 \<or> interactive hi_params"
    and b: "embd hi_state1 \<noteq> []"
    and c: "llama_eval_fails failing_backend (n_evals (trace hi_state1)) (embd hi_state1)
              (n_past hi_state1)"
    by (simp_all add: hi_state1_def hi_state0_def failing_backend_def stub_backend_def)
  show ?thesis
    using eval_failure_is_fatal [OF failing_prepare failing_loop_state1 a b c, of 0] c
    by (simp add: hi_state1_def hi_state0_def numeral_2_eq_2)
qed

subsection \<open>The budget in interactive mode\<close>

text \<open>
  Claim C3, evaluated on an interactive session with a budget of 3 tokens, the prompt
  \<open>Hi\<close> and a sampler that returns the token 97, which is not the end-of-text token, every
  time. After four iterations three tokens have been sampled, no input has been asked
  for, the budget is back at 3 and \<open>is_interacting\<close> is set. The fifth iteration samples
  a fourth token before it asks for input: four \<open>Sample\<close> events come before the first
  \<open>Getline\<close> in the trace.
\<close>

theorem budget_refill_samples_once_more:
  "prepare (stub_backend []) (stub_params\<lparr>interactive := True\<rparr>) empty_input
     CONSOLE_STATE_DEFAULT False = Inr (budget_params, hi_state0) \<and>
   n_predict budget_params = 3 \<and> remaining_tokens hi_state0 = 3 \<and>
   map_option (\<lambda>s. (n_samples (trace s), n_getlines (trace s), remaining_tokens s, is_interacting s))
     (loop_state (stub_backend []) budget_params 4 hi_state0) = Some (3, 0, 3, True) \<and>
   map_option (\<lambda>s. (n_samples (takeWhile (\<lambda>e. \<not> is_Getline e) (trace s)), n_getlines (trace s)))
     (loop_state (stub_backend []) budget_params 5 hi_state0) = Some (4, 1)"
  by code_simp

subsection \<open>Runs of the loop\<close>

lemma quiet_simps [simp]:
  "quiet []"
  "quiet (xs @ ys) = (quiet xs \<and> quiet ys)"
  "quiet (Print k t # xs) = quiet xs"
  "quiet (PrintTimings # xs) = quiet xs"
  "quiet (Free # xs) = quiet xs"
  "quiet (ZeroEosLogit # xs) = quiet xs"
  by (auto simp add: quiet_def)

lemma quiet_prints [simp]: "quiet (map (\<lambda>x. Print k (f x)) ys)"
  by (simp add: quiet_def)

lemma forward_input_succeeds:
  "0 \<le> input_consumed st \<Longrightarrow> last_n_tokens st \<noteq> [] \<Longrightarrow>
   \<exists>st'. forward_input params st = Inr st'"
proof (induction "nat (int (length (embd_inp st)) - input_consumed st)" arbitrary: st rule: less_induct)
  case less
  show ?case
  proof (cases "input_consumed st < int (length (embd_inp st))")
    case False
    then show ?thesis by (simp add: forward_input_done)
  next
    case True
    obtain oldest rest where w: "last_n_tokens st = oldest # rest"
      using less.prems(2) by (cases "last_n_tokens st") auto
    have step: "forward_input params st =
        (if n_batch params \<le> int (length (embd st)) + 1 then Inr (push_token rest st)
         else forward_input params (push_token rest st))"
      using True less.prems(1) w by (intro forward_input_step) simp_all
    have "\<exists>st'. forward_input params (push_token rest st) = Inr st'"
      using True less.prems(1) by (intro less.hyps) simp_all
    then show ?thesis using step by auto
  qed
qed

lemma sample_next_succeeds:
  assumes "last_n_tokens st \<noteq> []" "\<not> (ignore_eos params \<and> perplexity params)"
  shows "\<exists>s. sample_next be params st = Inr s \<and>
           trace s = trace st @ (if ignore_eos params then [ZeroEosLogit] else [])
                       @ [Sample (last_n_tokens st)]"
  using assms by (cases "last_n_tokens st") (auto simp add: sample_next_def Let_def)

lemma display_trace: "\<exists>ps. trace (display be st) = trace st @ ps \<and> quiet ps"
proof -
  let ?ps = "if \<not> input_noecho st
             then map (\<lambda>id1. Print Outstream (llama_token_to_str be id1)) (embd st) else []"
  let ?st1 = "if \<not> input_noecho st then st\<lparr>trace := trace st @ ?ps\<rparr> else st"
  let ?cs = "if \<not> input_noecho st \<and> int (length (embd_inp st)) = input_consumed st \<and>
                con_use_color st \<and> CONSOLE_STATE_DEFAULT \<noteq> con_st st
             then [Print Outstream (color_code CONSOLE_STATE_DEFAULT)] else []"
  have "trace (display be st) = trace st @ (?ps @ ?cs)"
    by (simp add: display_def Let_def set_console_state_trace)
  moreover have "quiet (?ps @ ?cs)" by simp
  ultimately show ?thesis by blast
qed

lemma finish_trace: "\<exists>s cs. finish st = Returned 0 s \<and> trace s = trace st @ cs \<and> quiet cs"
proof -
  let ?st1 = "emit Free (emit PrintTimings st)"
  let ?cs = "[PrintTimings, Free] @
             (if con_use_color st \<and> CONSOLE_STATE_DEFAULT \<noteq> con_st st
              then [Print Outstream (color_code CONSOLE_STATE_DEFAULT)] else [])"
  have "trace (set_console_state Outstream CONSOLE_STATE_DEFAULT ?st1) = trace st @ ?cs"
    by (simp add: set_console_state_trace)
  moreover have "quiet ?cs" by simp
  ultimately show ?thesis unfolding finish_def by blast
qed

lemma check_antiprompts_True [simp]: "check_antiprompts s as True"
  by (induction as) simp_all

lemma generate_pending_ok:
  assumes p: "input_consumed st < int (length (embd_inp st))" and c: "0 \<le> input_consumed st"
    and w: "last_n_tokens st \<noteq> []"
    and ev: "\<not> llama_eval_fails be (n_evals (trace st)) (embd st) (n_past st)"
  shows "\<exists>st3 k. generate be params st = Next (check_interaction be params (display be st3)) \<and>
           0 < k \<and> nat (input_consumed st) + k \<le> length (embd_inp st) \<and>
           embd st3 = take k (drop (nat (input_consumed st)) (embd_inp st)) \<and>
           input_consumed st3 = input_consumed st + int k \<and>
           embd_inp st3 = embd_inp st \<and> is_interacting st3 = is_interacting st \<and>
           remaining_tokens st3 = remaining_tokens st \<and>
           length (last_n_tokens st3) = length (last_n_tokens st) \<and>
           n_samples (trace st3) = n_samples (trace st) \<and>
           n_getlines (trace st3) = n_getlines (trace st)"
proof -
  obtain st3 where a: "forward_input params (after_eval st) = Inr st3"
    using forward_input_succeeds [of "after_eval st" params] c w by auto
  have g: "generate be params st = Next (check_interaction be params (display be st3))"
    using p ev a unfolding generate_unfold by simp
  have f: "same_frame st3 (after_eval st)"
    using forward_input_frame [of params "after_eval st"] a by simp
  from forward_input_Inr [OF a] c p obtain k where
    "embd st3 = take k (drop (nat (input_consumed st)) (embd_inp st))"
    "input_consumed st3 = input_consumed st + int k"
    "0 < k" "nat (input_consumed st) + k \<le> length (embd_inp st)"
    by auto
  then show ?thesis
    using g f by (intro exI [of _ st3] exI [of _ k]) (simp add: same_frame_def)
qed

lemma generate_drained_ok:
  assumes d: "int (length (embd_inp st)) \<le> input_consumed st"
    and w: "last_n_tokens st \<noteq> []"
    and a: "\<not> (ignore_eos params \<and> perplexity params)"
    and ev: "\<not> llama_eval_fails be (n_evals (trace st)) (embd st) (n_past st)"
  shows "\<exists>st3. generate be params st = Next (check_interaction be params (display be st3)) \<and>
           embd st3 = [llama_sample be (n_samples (trace st)) (last_n_tokens st)] \<and>
           embd_inp st3 = embd_inp st \<and> input_consumed st3 = input_consumed st \<and>
           is_interacting st3 = is_interacting st \<and>
           length (last_n_tokens st3) = length (last_n_tokens st) \<and>
           n_getlines (trace st3) = n_getlines (trace st) \<and>
           trace st3 = trace (after_eval st) @ (if ignore_eos params then [ZeroEosLogit] else [])
                         @ [Sample (last_n_tokens st)]"
proof -
  obtain st3 where s: "sample_next be params (after_eval st) = Inr st3"
    and t: "trace st3 = trace (after_eval st) @ (if ignore_eos params then [ZeroEosLogit] else [])
                         @ [Sample (last_n_tokens (after_eval st))]"
    using sample_next_succeeds [of "after_eval st" params be] w a by auto
  have g: "generate be params st = Next (check_interaction be params (display be st3))"
    using d ev s unfolding generate_unfold by simp
  have l: "length (last_n_tokens st3) = length (last_n_tokens st)"
    using sample_next_frame [of be params "after_eval st"] s by simp
  show ?thesis
    using g t l sample_next_Inr [OF s] by (intro exI [of _ st3]) simp
qed

lemma check_interaction_noninteractive [simp]:
  "\<not> interactive params \<Longrightarrow> check_interaction be params st = st"
  by (simp add: check_interaction_def)

lemma refill_budget_noninteractive [simp]:
  "\<not> interactive params \<Longrightarrow> refill_budget params st = st"
  by (simp add: refill_budget_def)

lemma last_take_drop_in_set:
  assumes "0 < k" "c + k \<le> length xs"
  shows "last (take k (drop c xs)) \<in> set xs"
proof -
  have "take k (drop c xs) \<noteq> []" using assms by auto
  then have "last (take k (drop c xs)) \<in> set (take k (drop c xs))" by (rule last_in_set)
  then show ?thesis by (meson in_set_dropD in_set_takeD)
qed

lemma noninteractive_run_to_eos:
  assumes ni: "\<not> interactive params"
    and ev: "\<forall>k ts n. \<not> llama_eval_fails be k ts n"
    and a: "\<not> (ignore_eos params \<and> perplexity params)"
  shows "0 < remaining_tokens st \<Longrightarrow> cursor_ok st \<Longrightarrow> last_n_tokens st \<noteq> [] \<Longrightarrow>
         llama_token_eos be \<notin> set (embd_inp st) \<Longrightarrow>
         \<forall>w. llama_sample be (n_samples (trace st)) w = llama_token_eos be \<Longrightarrow>
         \<exists>fuel s tr1 w tr2. main_loop be params fuel st = Some (Returned 0 s) \<and>
            trace s = tr1 @ Sample w # tr2 \<and> n_samples tr1 = n_samples (trace st) \<and> quiet tr2"
proof (induction "nat (int (length (embd_inp st)) - input_consumed st)" arbitrary: st rule: less_induct)
  case less
  have e: "\<not> llama_eval_fails be (n_evals (trace st)) (embd st) (n_past st)" using ev by simp
  show ?case
  proof (cases "input_consumed st < int (length (embd_inp st))")
    case True
    have c: "0 \<le> input_consumed st" using less.prems(2) by (simp add: cursor_ok_def)
    from generate_pending_ok [OF True c less.prems(3) e, of params] obtain st3 k where
      g: "generate be params st = Next (check_interaction be params (display be st3))"
      and k: "0 < k" "nat (input_consumed st) + k \<le> length (embd_inp st)"
        "embd st3 = take k (drop (nat (input_consumed st)) (embd_inp st))"
        "input_consumed st3 = input_consumed st + int k"
      and f: "embd_inp st3 = embd_inp st" "remaining_tokens st3 = remaining_tokens st"
        "length (last_n_tokens st3) = length (last_n_tokens st)"
        "n_samples (trace st3) = n_samples (trace st)"
      by blast
    let ?g = "display be st3"
    have ne: "embd ?g \<noteq> []" using k by auto
    have "last (embd ?g) \<in> set (embd_inp st)"
      using last_take_drop_in_set [OF k(1,2)] k(3) by simp
    then have neos: "last (embd ?g) \<noteq> llama_token_eos be" using less.prems(4) by auto
    have it: "iteration be params st = Next ?g"
      using g ni ne neos by (simp add: iteration_def check_eos_def)
    have "\<exists>fuel s tr1 w tr2. main_loop be params fuel ?g = Some (Returned 0 s) \<and>
            trace s = tr1 @ Sample w # tr2 \<and> n_samples tr1 = n_samples (trace ?g) \<and> quiet tr2"
    proof (rule less.hyps)
      show "nat (int (length (embd_inp ?g)) - input_consumed ?g)
              < nat (int (length (embd_inp st)) - input_consumed st)"
        using k f True by simp
      show "0 < remaining_tokens ?g" using f less.prems(1) by simp
      show "cursor_ok ?g" using k f c by (simp add: cursor_ok_def)
      show "last_n_tokens ?g \<noteq> []" using f less.prems(3) by auto
      show "llama_token_eos be \<notin> set (embd_inp ?g)" using f less.prems(4) by simp
      show "\<forall>w. llama_sample be (n_samples (trace ?g)) w = llama_token_eos be"
        using f less.prems(5) by simp
    qed
    then obtain fuel s tr1 w tr2 where
      m: "main_loop be params fuel ?g = Some (Returned 0 s)"
      and t: "trace s = tr1 @ Sample w # tr2" "n_samples tr1 = n_samples (trace ?g)" "quiet tr2"
      by blast
    have "main_loop be params (Suc fuel) st = Some (Returned 0 s)"
      using m it less.prems(1) by simp
    then show ?thesis using t f by (intro exI [of _ "Suc fuel"] exI [of _ s]) auto
  next
    case False
    then have d: "int (length (embd_inp st)) \<le> input_consumed st" by simp
    from generate_drained_ok [OF d less.prems(3) a e] obtain st3 where
      g: "generate be params st = Next (check_interaction be params (display be st3))"
      and b: "embd st3 = [llama_sample be (n_samples (trace st)) (last_n_tokens st)]"
      and t: "trace st3 = trace (after_eval st) @ (if ignore_eos params then [ZeroEosLogit] else [])
                         @ [Sample (last_n_tokens st)]"
      by blast
    let ?g = "display be st3"
    let ?b = "emit (Print Errstream '' [end of text]\<newline>'') ?g"
    have "embd ?g = [llama_token_eos be]" using b less.prems(5) by simp
    then have it: "iteration be params st = Break ?b"
      using g ni by (simp add: iteration_def check_eos_def)
    obtain ps where ps: "trace ?g = trace st3 @ ps" "quiet ps"
      using display_trace [of be st3] by blast
    obtain s cs where fin: "finish ?b = Returned 0 s" "trace s = trace ?b @ cs" "quiet cs"
      using finish_trace [of ?b] by blast
    let ?tr1 = "trace (after_eval st) @ (if ignore_eos params then [ZeroEosLogit] else [])"
    let ?tr2 = "ps @ [Print Errstream '' [end of text]\<newline>''] @ cs"
    have "main_loop be params (Suc 0) st = Some (Returned 0 s)"
      using it fin(1) less.prems(1) by simp
    moreover have "trace s = ?tr1 @ Sample (last_n_tokens st) # ?tr2"
      using fin(2) ps(1) t by simp
    moreover have "n_samples ?tr1 = n_samples (trace st)" by simp
    moreover have "quiet ?tr2" using ps(2) fin(3) by simp
    ultimately show ?thesis by blast
  qed
qed

lemma iteration_Return: "iteration be params st = Return c s \<Longrightarrow> c = 1"
  unfolding iteration_def generate_unfold
  by (auto simp add: check_eos_def split: if_splits sum.splits prod.splits)

lemma iteration_interactive_no_Break: "interactive params \<Longrightarrow> iteration be params st \<noteq> Break s"
  unfolding iteration_def generate_unfold
  by (auto simp add: check_eos_def split: if_splits sum.splits prod.splits)

lemma interactive_returns_only_1:
  "interactive params \<Longrightarrow> main_loop be params fuel st = Some (Returned c s) \<Longrightarrow> c = 1"
proof (induction fuel arbitrary: st)
  case 0
  then show ?case by simp
next
  case (Suc fuel)
  show ?case
  proof (cases "iteration be params st")
    case (Next s1)
    then show ?thesis using Suc by simp
  next
    case (Break s1)
    then show ?thesis using Suc.prems(1) iteration_interactive_no_Break by blast
  next
    case (Return c1 s1)
    then show ?thesis using Suc.prems iteration_Return [of be params st c1 s1] by simp
  next
    case (Abort f s1)
    then show ?thesis using Suc.prems by simp
  qed
qed

lemma check_eos_interactive:
  assumes "interactive params" "embd st \<noteq> []"
  shows "\<exists>s. check_eos be params st = Next s \<and> embd_inp s = embd_inp st \<and>
           input_consumed s = input_consumed st \<and> last_n_tokens s = last_n_tokens st \<and>
           trace s = trace st \<and>
           is_interacting s = (is_interacting st \<or> last (embd st) = llama_token_eos be \<or>
                               remaining_tokens st \<le> 0)"
  using assms by (auto simp add: check_eos_def refill_budget_def)

lemma check_interaction_solicits:
  assumes "interactive params" "int (length (embd_inp st)) \<le> input_consumed st" "is_interacting st"
  shows "n_getlines (trace st) < n_getlines (trace (check_interaction be params st))"
  using assms read_user_input_getlines [of "st\<lparr>is_interacting := True\<rparr>" be params]
  by (simp add: check_interaction_def Let_def)

lemma check_interaction_pending:
  "input_consumed st < int (length (embd_inp st)) \<Longrightarrow> check_interaction be params st = st"
  by (simp add: check_interaction_def)

lemma interacting_reaches_input:
  assumes i: "interactive params"
    and ev: "\<forall>k ts n. \<not> llama_eval_fails be k ts n"
    and a: "\<not> (ignore_eos params \<and> perplexity params)"
  shows "is_interacting st \<Longrightarrow> cursor_ok st \<Longrightarrow> last_n_tokens st \<noteq> [] \<Longrightarrow>
         \<exists>m s. loop_state be params (Suc m) st = Some s \<and>
                n_getlines (trace st) < n_getlines (trace s)"
proof (induction "nat (int (length (embd_inp st)) - input_consumed st)" arbitrary: st rule: less_induct)
  case less
  have e: "\<not> llama_eval_fails be (n_evals (trace st)) (embd st) (n_past st)" using ev by simp
  have solicited: "\<exists>m s. loop_state be params (Suc m) st = Some s \<and>
                     n_getlines (trace st) < n_getlines (trace s)"
    if g: "generate be params st = Next (check_interaction be params (display be st3))"
      and d: "int (length (embd_inp st3)) \<le> input_consumed st3"
      and f: "is_interacting st3" "embd st3 \<noteq> []" "n_getlines (trace st3) = n_getlines (trace st)"
    for st3
  proof -
    let ?g = "check_interaction be params (display be st3)"
    have n: "n_getlines (trace st) < n_getlines (trace ?g)"
      using check_interaction_solicits [of params "display be st3" be] i d f by simp
    obtain s where s: "check_eos be params ?g = Next s" "trace s = trace ?g"
      using check_eos_interactive [of params ?g be] i f(2) by auto
    have "loop_state be params (Suc 0) st = Some s"
      using g s(1) i by (simp add: iteration_def)
    then show ?thesis using n s(2) by (intro exI [of _ 0] exI [of _ s]) simp
  qed
  show ?case
  proof (cases "input_consumed st < int (length (embd_inp st))")
    case False
    then have d: "int (length (embd_inp st)) \<le> input_consumed st" by simp
    from generate_drained_ok [OF d less.prems(3) a e] obtain st3 where
      "generate be params st = Next (check_interaction be params (display be st3))"
      "embd st3 = [llama_sample be (n_samples (trace st)) (last_n_tokens st)]"
      "embd_inp st3 = embd_inp st" "input_consumed st3 = input_consumed st"
      "is_interacting st3 = is_interacting st" "n_getlines (trace st3) = n_getlines (trace st)"
      by blast
    then show ?thesis using solicited [of st3] d less.prems(1) by simp
  next
    case True
    have c: "0 \<le> input_consumed st" using less.prems(2) by (simp add: cursor_ok_def)
    from generate_pending_ok [OF True c less.prems(3) e, of params] obtain st3 k where
      g: "generate be params st = Next (check_interaction be params (display be st3))"
      and k: "0 < k" "nat (input_consumed st) + k \<le> length (embd_inp st)"
        "embd st3 = take k (drop (nat (input_consumed st)) (embd_inp st))"
        "input_consumed st3 = input_consumed st + int k"
      and f: "embd_inp st3 = embd_inp st" "is_interacting st3 = is_interacting st"
        "length (last_n_tokens st3) = length (last_n_tokens st)"
        "n_getlines (trace st3) = n_getlines (trace st)"
      by blast
    have ne: "embd st3 \<noteq> []" using k by auto
    show ?thesis
    proof (cases "int (length (embd_inp st3)) \<le> input_consumed st3")
      case True
      then show ?thesis using solicited [of st3] g f ne less.prems(1) by simp
    next
      case False
      then have p3: "input_consumed (display be st3) < int (length (embd_inp (display be st3)))"
        by simp
      let ?g = "display be st3"
      have gi: "check_interaction be params ?g = ?g"
        using p3 by (rule check_interaction_pending)
      obtain s1 where s1: "check_eos be params ?g = Next s1" "embd_inp s1 = embd_inp ?g"
        "input_consumed s1 = input_consumed ?g" "last_n_tokens s1 = last_n_tokens ?g"
        "trace s1 = trace ?g" "is_interacting s1"
        using check_eos_interactive [of params ?g be] i ne f(2) less.prems(1) by auto
      have it: "iteration be params st = Next s1"
        using g gi s1(1) by (simp add: iteration_def)
      have "\<exists>m s. loop_state be params (Suc m) s1 = Some s \<and>
                   n_getlines (trace s1) < n_getlines (trace s)"
      proof (rule less.hyps)
        show "nat (int (length (embd_inp s1)) - input_consumed s1)
                < nat (int (length (embd_inp st)) - input_consumed st)"
          using s1 k f True by simp
        show "is_interacting s1" by (rule s1(6))
        show "cursor_ok s1" using s1 k f c by (simp add: cursor_ok_def)
        show "last_n_tokens s1 \<noteq> []" using s1 f less.prems(3) by auto
      qed
      then obtain m s where m: "loop_state be params (Suc m) s1 = Some s"
        "n_getlines (trace s1) < n_getlines (trace s)"
        by blast
      have "loop_state be params (Suc (Suc m)) st = Some s"
        using it m(1) i by simp
      moreover have "n_getlines (trace st) < n_getlines (trace s)"
        using m(2) s1(5) f(4) by simp
      ultimately show ?thesis by blast
    qed
  qed
qed

lemma loop_state_add:
  "loop_state be params n s0 = Some st \<Longrightarrow>
   loop_state be params (n + k) s0 = loop_state be params k st"
proof (induction n arbitrary: s0)
  case 0
  then show ?case by simp
next
  case (Suc n)
  from Suc.prems obtain s1 where g: "remaining_tokens s0 > 0 \<or> interactive params"
    and i: "iteration be params s0 = Next s1"
    and l: "loop_state be params n s1 = Some st"
    by (auto split: if_splits outcome.splits)
  show ?case using g i Suc.IH [OF l] by simp
qed

lemma generate_Next_nonempty: "generate be params st = Next g \<Longrightarrow> embd g \<noteq> []"
  using generate_Next_drained [of be params st g] generate_Next_pending [of be params st g]
  by (cases "input_consumed st < int (length (embd_inp st))") auto

lemma prepare_flags:
  assumes "prepare be params0 ins c0 i0 = Inr (params, s0)"
  shows "ignore_eos params = ignore_eos params0 \<and> perplexity params = perplexity params0"
  using assms by (auto simp add: prepare_def Let_def split: if_splits)

lemma loop_state_window_nonempty:
  assumes "prepare be params0 ins c0 i0 = Inr (params, s0)" "0 < repeat_last_n params0"
    and "loop_state be params n s0 = Some st"
  shows "last_n_tokens st \<noteq> []"
proof -
  have "length (last_n_tokens st) = nat (repeat_last_n params0)"
    using loop_state_window_length [OF assms(3)] prepare_Inr [OF assms(1)] by simp
  then show ?thesis using assms(2) by auto
qed

subsection \<open>The end-of-text token\<close>

text \<open>
  Claim C6. Take a session whose evaluator never fails, whose repetition window is not
  empty and whose assertion of line 236 holds. If interactive mode is off after lines 130
  to 143, the budget is positive, the prompt has no end-of-text token and the first
  call of the sampler returns the end-of-text token, then \<open>run\<close> returns 0 for some bound
  on the number of iterations, and the trace of the final state holds exactly one
  \<open>Sample\<close> event, with no call of the evaluator (and no read of input) after it. If
  interactive mode is on, \<open>run\<close> never returns 0; and whenever an iteration reaches the
  end-of-text check with the end-of-text token last in the batch, it goes on to the next
  iteration with \<open>is_interacting\<close> set, and some later iteration reads input from the
  user.
\<close>

theorem eos_ends_only_noninteractive_sessions:
  assumes p: "prepare be params0 ins c0 i0 = Inr (params, s0)"
    and ev: "\<forall>k ts n. \<not> llama_eval_fails be k ts n"
    and r: "0 < repeat_last_n params0"
    and a: "\<not> (ignore_eos params0 \<and> perplexity params0)"
  shows "(\<not> interactive params \<and> 0 < n_predict params \<and>
          llama_token_eos be \<notin> set (embd_inp s0) \<and>
          (\<forall>w. llama_sample be 0 w = llama_token_eos be) \<longrightarrow>
            (\<exists>fuel s tr1 w tr2. run be params0 ins c0 i0 fuel = Some (Returned 0 s) \<and>
               trace s = tr1 @ Sample w # tr2 \<and> n_samples tr1 = 0 \<and> n_samples tr2 = 0 \<and>
               n_evals tr2 = 0 \<and> n_getlines tr2 = 0)) \<and>
         (interactive params \<longrightarrow>
            (\<forall>fuel s. run be params0 ins c0 i0 fuel \<noteq> Some (Returned 0 s)) \<and>
            (\<forall>n st g. loop_state be params n s0 = Some st \<and> generate be params st = Next g \<and>
                      last (embd g) = llama_token_eos be \<longrightarrow>
               (\<exists>s'. iteration be params st = Next s' \<and> is_interacting s' \<and>
                  (\<exists>m s''. loop_state be params (Suc m) s' = Some s'' \<and>
                            n_getlines (trace s') < n_getlines (trace s'')))))"
proof (intro conjI impI allI)
  note p0 = prepare_Inr [OF p]
  have a': "\<not> (ignore_eos params \<and> perplexity params)" using a prepare_flags [OF p] by simp
  {
    assume h: "\<not> interactive params \<and> 0 < n_predict params \<and>
               llama_token_eos be \<notin> set (embd_inp s0) \<and>
               (\<forall>w. llama_sample be 0 w = llama_token_eos be)"
    have w0: "last_n_tokens s0 \<noteq> []"
      using loop_state_window_nonempty [OF p r, of 0 s0] by simp
    have "\<exists>fuel s tr1 w tr2. main_loop be params fuel s0 = Some (Returned 0 s) \<and>
            trace s = tr1 @ Sample w # tr2 \<and> n_samples tr1 = n_samples (trace s0) \<and> quiet tr2"
      using h p0 w0 by (intro noninteractive_run_to_eos [OF _ ev a']) simp_all
    then obtain fuel s tr1 w tr2 where
      m: "main_loop be params fuel s0 = Some (Returned 0 s)"
      and t: "trace s = tr1 @ Sample w # tr2" "n_samples tr1 = n_samples (trace s0)" "quiet tr2"
      by blast
    have "run be params0 ins c0 i0 fuel = Some (Returned 0 s)"
      using p m by (simp add: run_def)
    moreover have "n_samples tr1 = 0" using t(2) p0 by simp
    moreover have "n_samples tr2 = 0 \<and> n_evals tr2 = 0 \<and> n_getlines tr2 = 0"
      using t(3) by (simp add: quiet_def)
    ultimately show "\<exists>fuel s tr1 w tr2. run be params0 ins c0 i0 fuel = Some (Returned 0 s) \<and>
               trace s = tr1 @ Sample w # tr2 \<and> n_samples tr1 = 0 \<and> n_samples tr2 = 0 \<and>
               n_evals tr2 = 0 \<and> n_getlines tr2 = 0"
      using t(1) by blast
  }
  {
    fix fuel s
    assume i: "interactive params"
    show "run be params0 ins c0 i0 fuel \<noteq> Some (Returned 0 s)"
      using interactive_returns_only_1 [OF i, of be fuel s0 0 s] p by (auto simp add: run_def)
  }
  {
    fix n st g
    assume i: "interactive params"
      and h: "loop_state be params n s0 = Some st \<and> generate be params st = Next g \<and>
              last (embd g) = llama_token_eos be"
    have ne: "embd g \<noteq> []" using h generate_Next_nonempty by blast
    obtain s' where s': "check_eos be params g = Next s'" "is_interacting s'"
      using check_eos_interactive [OF i ne, of be] h by auto
    have it: "iteration be params st = Next s'"
      using h s'(1) by (simp add: iteration_def)
    have "loop_state be params (n + Suc 0) s0 = loop_state be params (Suc 0) st"
      using h by (intro loop_state_add) simp
    then have l: "loop_state be params (Suc n) s0 = Some s'"
      using it i by simp
    have "cursor_ok s'" using p l by (rule loop_state_cursor_ok)
    moreover have "last_n_tokens s' \<noteq> []" using p r l by (rule loop_state_window_nonempty)
    ultimately have "\<exists>m s''. loop_state be params (Suc m) s' = Some s'' \<and>
                      n_getlines (trace s') < n_getlines (trace s'')"
      using s'(2) by (intro interacting_reaches_input [OF i ev a'])
    then show "\<exists>s'. iteration be params st = Next s' \<and> is_interacting s' \<and>
                  (\<exists>m s''. loop_state be params (Suc m) s' = Some s'' \<and>
                            n_getlines (trace s') < n_getlines (trace s''))"
      using it s'(2) by blast
  }
qed

lemma eos_prepare:
  "prepare (stub_backend [2]) stub_params empty_input CONSOLE_STATE_DEFAULT False
     = Inr (hi_params, hi_state0)"
  by (simp add: run_defs hi_params_def hi_state0_def eval_nat_numeral)

lemma eos_prepare_interactive:
  "prepare (stub_backend [2]) (stub_params\<lparr>interactive := True\<rparr>) empty_input
     CONSOLE_STATE_DEFAULT False = Inr (budget_params, hi_state0)"
  by (simp add: run_defs budget_params_def hi_params_def hi_state0_def eval_nat_numeral)

lemma eos_loop_state1: "loop_state (stub_backend [2]) budget_params 1 hi_state0 = Some hi_state1"
  by code_simp

lemma eos_generate1: "generate (stub_backend [2]) budget_params hi_state1 = Next eos_state2"
  by code_simp

theorem eos_ends_only_noninteractive_sessions_witness:
  "(\<exists>fuel s tr1 w tr2.
      run (stub_backend [2]) stub_params empty_input CONSOLE_STATE_DEFAULT False fuel
        = Some (Returned 0 s) \<and>
      trace s = tr1 @ Sample w # tr2 \<and> n_samples tr1 = 0 \<and> n_samples tr2 = 0 \<and>
      n_evals tr2 = 0 \<and> n_getlines tr2 = 0) \<and>
   (\<forall>fuel s. run (stub_backend [2]) (stub_params\<lparr>interactive := True\<rparr>) empty_input
                CONSOLE_STATE_DEFAULT False fuel \<noteq> Some (Returned 0 s)) \<and>
   generate (stub_backend [2]) budget_params hi_state1 = Next eos_state2 \<and>
   last (embd eos_state2) = llama_token_eos (stub_backend [2]) \<and>
   (\<exists>s'. iteration (stub_backend [2]) budget_params hi_state1 = Next s' \<and> is_interacting s' \<and>
      (\<exists>m s''. loop_state (stub_backend [2]) budget_params (Suc m) s' = Some s'' \<and>
                n_getlines (trace s') < n_getlines (trace s'')))"
proof -
  have ev: "\<forall>k ts n. \<not> llama_eval_fails (stub_backend [2]) k ts n"
    by (simp add: stub_backend_def)
  have r: "0 < repeat_last_n stub_params" "0 < repeat_last_n (stub_params\<lparr>interactive := True\<rparr>)"
    by (simp_all add: stub_params_def)
  have a: "\<not> (ignore_eos stub_params \<and> perplexity stub_params)"
    "\<not> (ignore_eos (stub_params\<lparr>interactive := True\<rparr>) \<and>
        perplexity (stub_params\<lparr>interactive := True\<rparr>))"
    by (simp_all add: stub_params_def)
  have h1: "\<not> interactive hi_params \<and> 0 < n_predict hi_params \<and>
            llama_token_eos (stub_backend [2]) \<notin> set (embd_inp hi_state0) \<and>
            (\<forall>w. llama_sample (stub_backend [2]) 0 w = llama_token_eos (stub_backend [2]))"
    by (simp add: hi_params_def stub_params_def stub_backend_def hi_state0_def)
  have h2: "interactive budget_params"
    by (simp add: budget_params_def)
  have e: "last (embd eos_state2) = llama_token_eos (stub_backend [2])"
    by (simp add: eos_state2_def stub_backend_def)
  note t1 = eos_ends_only_noninteractive_sessions [OF eos_prepare ev r(1) a(1)]
  note t2 = eos_ends_only_noninteractive_sessions [OF eos_prepare_interactive ev r(2) a(2)]
  show ?thesis
    using t1 h1 t2 h2 eos_loop_state1 eos_generate1 e by blast
qed

end
